theory Spec2Isabelle
  imports Main
begin

section \<open>Expressions\<close>

text \<open>
  Modelled from the spec: the class \<open>Expr\<close> and the helpers \<open>expr\<close>, \<open>first\<close>, \<open>extend\<close> and
  \<open>subexpressions\<close> are imported by \<open>logic.py\<close> from \<open>utils\<close>, which is not among the sources.
  An expression is an operator string with an ordered sequence of argument expressions,
  compared structurally. \<open>logic.py\<close> itself uses Python's \<open>True\<close> and \<open>False\<close> as the boolean
  constants (\<open>exp in (True, False)\<close> in \<open>pl_true\<close>, the values of \<open>_op_identity\<close>): they are
  not \<open>Expr\<close> objects and have neither \<open>op\<close> nor \<open>args\<close>. \<open>Const\<close> stands for them, \<open>Expr\<close>
  for the objects of the class. The operator overloads build nodes: \<open>~p\<close> is
  \<open>Expr ''~'' [p]\<close>, \<open>p | q\<close> is \<open>Expr ''|'' [p, q]\<close>, \<open>p & q\<close> is \<open>Expr ''&'' [p, q]\<close>.
  Sentences are taken as already parsed, so \<open>expr\<close> is the identity.
\<close>

datatype expr = Const bool | Expr string "expr list"

text \<open>
  The exceptions the functions below can raise: reading \<open>op\<close> or \<open>args\<close> of a boolean
  (\<open>AttributeError\<close>), \<open>args[0]\<close> of an empty argument tuple (\<open>IndexError\<close>), a failed
  \<open>assert\<close>, a missing key of \<open>_op_identity\<close>, and the two \<open>ValueError\<close>s of \<open>pl_true\<close>:
  the tuple unpacking \<open>p, q = args\<close> and the explicit \<open>raise\<close>.
\<close>

datatype error =
    AttributeError
  | IndexError
  | AssertionError
  | KeyError
  | ValueError_unpack
  | ValueError_illegal_operator

text \<open>
  \<open>is_symbol\<close>: \<open>s[:1].isalpha()\<close>; \<open>is_prop_symbol\<close>: additionally \<open>s[0].isupper()\<close>.
  Operator strings are read as ASCII.
\<close>

definition isalpha :: "char \<Rightarrow> bool" where
  "isalpha c = (let n = (of_char c :: nat) in (65 \<le> n \<and> n \<le> 90) \<or> (97 \<le> n \<and> n \<le> 122))"

definition isupper :: "char \<Rightarrow> bool" where
  "isupper c = (let n = (of_char c :: nat) in 65 \<le> n \<and> n \<le> 90)"

definition is_symbol :: "string \<Rightarrow> bool" where
  "is_symbol s = (case s of [] \<Rightarrow> False | c # _ \<Rightarrow> isalpha c)"

definition is_prop_symbol :: "string \<Rightarrow> bool" where
  "is_prop_symbol s = (is_symbol s \<and> (case s of [] \<Rightarrow> False | c # _ \<Rightarrow> isupper c))"

section \<open>The evaluator\<close>

text \<open>
  The two loops of \<open>pl_true\<close> over the arguments of a disjunction and of a conjunction.
  They run over the results of the recursive calls in argument order; \<open>result\<close> is the
  loop variable of the source. An exception of an argument is raised when the loop reaches
  it, so an argument after a short-circuiting one is never looked at.
\<close>

fun or_loop :: "(error + bool option) list \<Rightarrow> bool option \<Rightarrow> error + bool option" where
  "or_loop [] result = Inr result"
| "or_loop (r # rs) result =
     (case r of
        Inl e \<Rightarrow> Inl e
      | Inr p \<Rightarrow> if p = Some True then Inr (Some True)
                 else or_loop rs (if p = None then None else result))"

fun and_loop :: "(error + bool option) list \<Rightarrow> bool option \<Rightarrow> error + bool option" where
  "and_loop [] result = Inr result"
| "and_loop (r # rs) result =
     (case r of
        Inl e \<Rightarrow> Inl e
      | Inr p \<Rightarrow> if p = Some False then Inr (Some False)
                 else and_loop rs (if p = None then None else result))"

text \<open>The measure under which \<open>pl_true\<close> terminates: an implication is rewritten into a
  disjunction with one more negation before it is evaluated.\<close>

fun weight :: "expr \<Rightarrow> nat" where
  "weight (Const b) = 1"
| "weight (Expr op args) =
     (if op \<in> {''>>'', ''==>'', ''<<'', ''<==''} then 3 else 1) + sum_list (map weight args)"

text \<open>
  \<open>pl_true(exp, model)\<close>. The model is a dictionary from proposition symbols to booleans;
  \<open>None\<close> is Python's \<open>None\<close>, the answer "unknown".

  For an implication the source evaluates \<open>~p | q\<close> (or \<open>p | ~q\<close>). When the negated operand
  is a Python boolean, \<open>~\<close> is integer complement and gives \<open>-1\<close> or \<open>-2\<close>, which has no
  \<open>op\<close>: evaluating it raises \<open>AttributeError\<close>. In \<open>~p | q\<close> it is the first argument of
  the disjunction; in \<open>p | ~q\<close> it is reached after \<open>p\<close> unless \<open>p\<close> is true (and when \<open>p\<close>
  is a boolean too, the whole of \<open>p | ~q\<close> is an integer).
\<close>

function pl_true :: "expr \<Rightarrow> (expr \<rightharpoonup> bool) \<Rightarrow> error + bool option" where
  "pl_true (Const b) model = Inr (Some b)"
| "pl_true (Expr op args) model =
     (if is_prop_symbol op then Inr (model (Expr op args))
      else if op = ''~'' then
        (case args of
           [] \<Rightarrow> Inl IndexError
         | a # _ \<Rightarrow>
             (case pl_true a model of
                Inl e \<Rightarrow> Inl e
              | Inr None \<Rightarrow> Inr None
              | Inr (Some p) \<Rightarrow> Inr (Some (\<not> p))))
      else if op = ''|'' then or_loop (map (\<lambda>arg. pl_true arg model) args) (Some False)
      else if op = ''&'' then and_loop (map (\<lambda>arg. pl_true arg model) args) (Some True)
      else
        (case args of
           [p, q] \<Rightarrow>
             if op = ''>>'' \<or> op = ''==>'' then
               (case p of
                  Const _ \<Rightarrow> Inl AttributeError
                | Expr _ _ \<Rightarrow> pl_true (Expr ''|'' [Expr ''~'' [p], q]) model)
             else if op = ''<<'' \<or> op = ''<=='' then
               (case q of
                  Const _ \<Rightarrow>
                    (case p of
                       Const _ \<Rightarrow> Inl AttributeError
                     | Expr _ _ \<Rightarrow> or_loop [pl_true p model, Inl AttributeError] (Some False))
                | Expr _ _ \<Rightarrow> pl_true (Expr ''|'' [p, Expr ''~'' [q]]) model)
             else
               (case pl_true p model of
                  Inl e \<Rightarrow> Inl e
                | Inr None \<Rightarrow> Inr None
                | Inr (Some pt) \<Rightarrow>
                    (case pl_true q model of
                       Inl e \<Rightarrow> Inl e
                     | Inr None \<Rightarrow> Inr None
                     | Inr (Some qt) \<Rightarrow>
                         if op = ''<=>'' then Inr (Some (pt = qt))
                         else if op = ''^'' then Inr (Some (pt \<noteq> qt))
                         else Inl ValueError_illegal_operator))
         | _ \<Rightarrow> Inl ValueError_unpack))"
  by pat_completeness auto

lemma weight_mem: "a \<in> set args \<Longrightarrow> weight a \<le> sum_list (map weight args)"
  by (induction args) auto

termination pl_true
  by (relation "measure (\<lambda>(e, m). weight e)") (auto dest: weight_mem)

declare pl_true.simps(2) [simp del]

section \<open>The associator\<close>

text \<open>
  \<open>dissociate(op, args)\<close>: the inner function \<open>collect\<close> appends to \<open>result\<close> in traversal
  order; reading \<open>arg.op\<close> of a boolean raises.
\<close>

fun collect :: "string \<Rightarrow> expr list \<Rightarrow> error + expr list" where
  "collect op [] = Inr []"
| "collect op (Const b # rest) = Inl AttributeError"
| "collect op (Expr aop aargs # rest) =
     (if aop = op then
        (case collect op aargs of
           Inl e \<Rightarrow> Inl e
         | Inr xs \<Rightarrow> (case collect op rest of Inl e \<Rightarrow> Inl e | Inr ys \<Rightarrow> Inr (xs @ ys)))
      else (case collect op rest of Inl e \<Rightarrow> Inl e | Inr ys \<Rightarrow> Inr (Expr aop aargs # ys)))"

definition dissociate :: "string \<Rightarrow> expr list \<Rightarrow> error + expr list" where
  "dissociate op args = collect op args"

text \<open>
  \<open>_op_identity\<close>. Its entries for \<open>'+'\<close> and \<open>'*'\<close> are numbers and belong to the arithmetic
  simplifier; the functions here only ever pass \<open>'&'\<close> and \<open>'|'\<close>. Any other key is missing.
\<close>

definition op_identity :: "string \<Rightarrow> error + expr" where
  "op_identity op =
     (if op = ''&'' then Inr (Const True)
      else if op = ''|'' then Inr (Const False)
      else Inl KeyError)"

definition associate :: "string \<Rightarrow> expr list \<Rightarrow> error + expr" where
  "associate op args =
     (case dissociate op args of
        Inl e \<Rightarrow> Inl e
      | Inr [] \<Rightarrow> op_identity op
      | Inr [a] \<Rightarrow> Inr a
      | Inr as \<Rightarrow> Inr (Expr op as))"

definition conjuncts :: "expr \<Rightarrow> error + expr list" where
  "conjuncts s = dissociate ''&'' [s]"

section \<open>The normalizer\<close>

text \<open>
  \<open>list(map(f, args))\<close>: the results in order, or the first exception.
\<close>

fun list_results :: "(error + 'a) list \<Rightarrow> error + 'a list" where
  "list_results [] = Inr []"
| "list_results (r # rs) =
     (case r of
        Inl e \<Rightarrow> Inl e
      | Inr x \<Rightarrow> (case list_results rs of Inl e \<Rightarrow> Inl e | Inr xs \<Rightarrow> Inr (x # xs)))"

text \<open>
  \<open>eliminate_implications(s)\<close>. After the atom test \<open>args\<close> is not empty, so \<open>args[0]\<close> and
  \<open>args[-1]\<close> are its first and last element.
\<close>

fun eliminate_implications :: "expr \<Rightarrow> error + expr" where
  "eliminate_implications (Const b) = Inl AttributeError"
| "eliminate_implications (Expr op args) =
     (if args = [] \<or> is_symbol op then Inr (Expr op args)
      else
        (case list_results (map eliminate_implications args) of
           Inl e \<Rightarrow> Inl e
         | Inr args' \<Rightarrow>
             (let p = hd args'; q = last args' in
              if op = ''>>'' \<or> op = ''==>'' then Inr (Expr ''|'' [q, Expr ''~'' [p]])
              else if op = ''<<'' \<or> op = ''<=='' then Inr (Expr ''|'' [p, Expr ''~'' [q]])
              else if op = ''<=>'' then
                Inr (Expr ''&'' [Expr ''|'' [p, Expr ''~'' [q]], Expr ''|'' [q, Expr ''~'' [p]]])
              else if op = ''^'' then
                (if length args' = 2
                 then Inr (Expr ''|'' [Expr ''&'' [p, Expr ''~'' [q]], Expr ''&'' [Expr ''~'' [p], q]])
                 else Inl AssertionError)
              else if op \<in> {''&'', ''|'', ''~''} then Inr (Expr op args')
              else Inl AssertionError)))"

text \<open>
  \<open>move_not_inwards(s)\<close>; the local \<open>NOT(b)\<close> is \<open>move_not_inwards(~b)\<close>. The recursion is not
  structural (it builds \<open>~b\<close>), so it comes with a size measure.
\<close>

fun esize :: "expr \<Rightarrow> nat" where
  "esize (Const b) = 1"
| "esize (Expr op args) = 1 + sum_list (map esize args)"

function move_not_inwards :: "expr \<Rightarrow> error + expr" where
  "move_not_inwards (Const b) = Inl AttributeError"
| "move_not_inwards (Expr op args) =
     (if op = ''~'' then
        (case args of
           [] \<Rightarrow> Inl IndexError
         | a # _ \<Rightarrow>
             (case a of
                Const _ \<Rightarrow> Inl AttributeError
              | Expr aop aargs \<Rightarrow>
                  if aop = ''~'' then
                    (case aargs of [] \<Rightarrow> Inl IndexError | b # _ \<Rightarrow> move_not_inwards b)
                  else if aop = ''&'' then
                    (case list_results (map (\<lambda>b. move_not_inwards (Expr ''~'' [b])) aargs) of
                       Inl e \<Rightarrow> Inl e
                     | Inr xs \<Rightarrow> associate ''|'' xs)
                  else if aop = ''|'' then
                    (case list_results (map (\<lambda>b. move_not_inwards (Expr ''~'' [b])) aargs) of
                       Inl e \<Rightarrow> Inl e
                     | Inr xs \<Rightarrow> associate ''&'' xs)
                  else Inr (Expr op args)))
      else if is_symbol op \<or> args = [] then Inr (Expr op args)
      else
        (case list_results (map move_not_inwards args) of
           Inl e \<Rightarrow> Inl e
         | Inr xs \<Rightarrow> Inr (Expr op xs)))"
  by pat_completeness auto

lemma esize_mem: "a \<in> set args \<Longrightarrow> esize a \<le> sum_list (map esize args)"
  by (induction args) auto

termination move_not_inwards
  by (relation "measure esize") (auto dest: esize_mem)

text \<open>
  \<open>distribute_and_over_or(s)\<close>. \<open>first_conj\<close> is
  \<open>first(arg for arg in s.args if arg.op == '&')\<close>, with \<open>None\<close> as the default of \<open>first\<close>.
  \<open>others\<close> drops the object that \<open>first\<close> returned (\<open>a is not conj\<close>): in a tree, where no
  object occurs twice, that is the first element equal to it. The two tests on
  \<open>len(s.args)\<close> are kept as the source has them. The termination measure counts the nodes
  other than disjunctions, and then all nodes.
\<close>

fun first_conj :: "expr list \<Rightarrow> error + expr option" where
  "first_conj [] = Inr None"
| "first_conj (Const b # rest) = Inl AttributeError"
| "first_conj (Expr aop aargs # rest) =
     (if aop = ''&'' then Inr (Some (Expr aop aargs)) else first_conj rest)"

fun args_of :: "expr \<Rightarrow> expr list" where
  "args_of (Expr op args) = args"
| "args_of (Const b) = []"

fun weight_or :: "expr \<Rightarrow> nat" where
  "weight_or (Const b) = 0"
| "weight_or (Expr op args) = (if op = ''|'' then 0 else 1) + sum_list (map weight_or args)"

function distribute_and_over_or :: "expr \<Rightarrow> error + expr" where
  "distribute_and_over_or (Const b) = Inl AttributeError"
| "distribute_and_over_or (Expr op args) =
     (if op = ''|'' then
        (case associate ''|'' args of
           Inl e \<Rightarrow> Inl e
         | Inr (Const _) \<Rightarrow> Inl AttributeError
         | Inr (Expr op' args') \<Rightarrow>
             if op' \<noteq> ''|'' then distribute_and_over_or (Expr op' args')
             else if length args' = 0 then Inr (Const False)
             else if length args' = 1 then distribute_and_over_or (hd args')
             else
               (case first_conj args' of
                  Inl e \<Rightarrow> Inl e
                | Inr None \<Rightarrow> Inr (Expr op' args')
                | Inr (Some cj) \<Rightarrow>
                    (case associate ''|'' (remove1 cj args') of
                       Inl e \<Rightarrow> Inl e
                     | Inr rest \<Rightarrow>
                         (case list_results
                                 (map (\<lambda>c. distribute_and_over_or (Expr ''|'' [c, rest]))
                                      (args_of cj)) of
                            Inl e \<Rightarrow> Inl e
                          | Inr xs \<Rightarrow> associate ''&'' xs))))
      else if op = ''&'' then
        (case list_results (map distribute_and_over_or args) of
           Inl e \<Rightarrow> Inl e
         | Inr xs \<Rightarrow> associate ''&'' xs)
      else Inr (Expr op args))"
  by pat_completeness auto

lemma weight_or_mem: "a \<in> set args \<Longrightarrow> weight_or a \<le> sum_list (map weight_or args)"
  by (induction args) auto

lemma collect_weight_or:
  "collect ''|'' args = Inr xs \<Longrightarrow> sum_list (map weight_or xs) = sum_list (map weight_or args)"
  by (induction "''|''" args arbitrary: xs rule: collect.induct)
     (auto split: if_splits sum.splits)

lemma collect_esize:
  "collect op args = Inr xs \<Longrightarrow> sum_list (map esize xs) \<le> sum_list (map esize args)"
  by (induction op args arbitrary: xs rule: collect.induct)
     (fastforce split: if_splits sum.splits)+

lemma collect_not_op:
  "collect op args = Inr xs \<Longrightarrow> x \<in> set xs \<Longrightarrow> \<exists>aop aargs. x = Expr aop aargs \<and> aop \<noteq> op"
  by (induction op args arbitrary: xs rule: collect.induct)
     (auto split: if_splits sum.splits)

lemma first_conj_Some:
  "first_conj xs = Inr (Some c) \<Longrightarrow> c \<in> set xs \<and> (\<exists>cs. c = Expr ''&'' cs)"
  by (induction xs rule: first_conj.induct) (auto split: if_splits)

lemma associate_single:
  assumes "associate op args = Inr (Expr op' args')" and "op' \<noteq> op"
  shows "dissociate op args = Inr [Expr op' args']"
  using assms
  by (auto simp: associate_def op_identity_def split: sum.splits list.splits if_splits)

lemma associate_same:
  assumes "associate op args = Inr (Expr op args')"
  shows "dissociate op args = Inr args' \<and> 2 \<le> length args'"
proof -
  obtain xs where xs: "dissociate op args = Inr xs"
    using assms by (auto simp: associate_def split: sum.splits)
  have "xs \<noteq> [Expr op args']"
    using collect_not_op [of op args xs "Expr op args'"] xs by (auto simp: dissociate_def)
  with assms xs show ?thesis
    by (auto simp: associate_def op_identity_def split: list.splits if_splits)
qed

lemma associate_weight_or:
  assumes "associate ''|'' xs = Inr r"
  shows "weight_or r \<le> sum_list (map weight_or xs)"
proof -
  obtain ys where ys: "dissociate ''|'' xs = Inr ys"
    using assms by (auto simp: associate_def split: sum.splits)
  then have "sum_list (map weight_or ys) = sum_list (map weight_or xs)"
    by (simp add: dissociate_def collect_weight_or)
  with assms ys show ?thesis
    by (auto simp: associate_def op_identity_def split: list.splits)
qed

termination distribute_and_over_or
proof (relation "measures [weight_or, esize]", goal_cases)
  case 1
  show ?case by simp
next
  case (2 op args r op' args')
  then have d: "collect ''|'' args = Inr [Expr op' args']"
    using associate_single [of "''|''" args op' args'] by (simp add: dissociate_def)
  from collect_weight_or [OF d] collect_esize [OF d] show ?case by simp
next
  case (3 op args r op' args')
  then have "2 \<le> length args'"
    using associate_same [of "''|''" args args'] by simp
  with 3 show ?case by simp
next
  case (4 op args r op' args' fco cj rest c)
  then have d: "collect ''|'' args = Inr args'"
    using associate_same [of "''|''" args args'] by (simp add: dissociate_def)
  from 4 have fc: "first_conj args' = Inr (Some cj)" by simp
  from first_conj_Some [OF fc] obtain cs where cj: "cj \<in> set args'" "cj = Expr ''&'' cs"
    by blast
  from 4 have rest: "associate ''|'' (remove1 cj args') = Inr rest" by simp
  from 4 cj have c: "c \<in> set cs" by simp
  have "weight_or c < weight_or cj"
    using weight_or_mem [OF c] cj by simp
  moreover have "weight_or rest \<le> sum_list (map weight_or (remove1 cj args'))"
    by (rule associate_weight_or [OF rest])
  moreover have "sum_list (map weight_or args') = weight_or cj + sum_list (map weight_or (remove1 cj args'))"
    by (rule sum_list_map_remove1 [OF cj(1)])
  ultimately show ?case
    using collect_weight_or [OF d] 4 by simp
next
  case (5 op args x)
  then show ?case using weight_or_mem [of x args] by simp
qed

text \<open>\<open>to_cnf(s)\<close>: the three stages in sequence.\<close>

definition to_cnf :: "expr \<Rightarrow> error + expr" where
  "to_cnf s =
     (case eliminate_implications s of
        Inl e \<Rightarrow> Inl e
      | Inr s1 \<Rightarrow>
          (case move_not_inwards s1 of
             Inl e \<Rightarrow> Inl e
           | Inr s2 \<Rightarrow> distribute_and_over_or s2))"

section \<open>The entailment checker\<close>

text \<open>\<open>prop_symbols(x)\<close>: a boolean is not an \<open>Expr\<close> and has no symbols.\<close>

fun prop_symbols :: "expr \<Rightarrow> expr set" where
  "prop_symbols (Const b) = {}"
| "prop_symbols (Expr op args) =
     (if is_prop_symbol op then {Expr op args} else \<Union> (set (map prop_symbols args)))"

text \<open>
  \<open>list(prop_symbols(x))\<close>: Python fixes no order for the elements of a set. \<open>symbol_list\<close>
  is one enumeration without repetition, the symbols in order of first occurrence.
\<close>

fun symbol_list :: "expr \<Rightarrow> expr list" where
  "symbol_list (Const b) = []"
| "symbol_list (Expr op args) =
     (if is_prop_symbol op then [Expr op args] else remdups (concat (map symbol_list args)))"

text \<open>
  Modelled from the spec: \<open>subexpressions\<close> of \<open>utils\<close> is not among the sources; it yields
  the expression and then the subexpressions of its arguments. \<open>is_variable(x)\<close> reads
  \<open>x.op[0]\<close>, which fails on an empty operator string.
\<close>

fun subexpressions :: "expr \<Rightarrow> expr list" where
  "subexpressions (Const b) = [Const b]"
| "subexpressions (Expr op args) = Expr op args # concat (map subexpressions args)"

definition islower :: "char \<Rightarrow> bool" where
  "islower c = (let n = (of_char c :: nat) in 97 \<le> n \<and> n \<le> 122)"

fun is_variable :: "expr \<Rightarrow> error + bool" where
  "is_variable (Const b) = Inr False"
| "is_variable (Expr op args) =
     (if args \<noteq> [] then Inr False
      else (case op of [] \<Rightarrow> Inl IndexError | c # _ \<Rightarrow> Inr (islower c)))"

definition variables :: "expr \<Rightarrow> error + expr list" where
  "variables s =
     (case list_results (map is_variable (subexpressions s)) of
        Inl e \<Rightarrow> Inl e
      | Inr _ \<Rightarrow> Inr (filter (\<lambda>x. is_variable x = Inr True) (subexpressions s)))"

text \<open>
  \<open>tt_check_all(kb, alpha, symbols, model)\<close>; \<open>extend(model, P, v)\<close> is the model with \<open>P\<close>
  bound to \<open>v\<close>. \<open>and\<close> does not evaluate its second operand when the first is false.
\<close>

fun tt_check_all :: "expr \<Rightarrow> expr \<Rightarrow> expr list \<Rightarrow> (expr \<rightharpoonup> bool) \<Rightarrow> error + bool" where
  "tt_check_all kb alpha [] model =
     (case pl_true kb model of
        Inl e \<Rightarrow> Inl e
      | Inr (Some True) \<Rightarrow>
          (case pl_true alpha model of
             Inl e \<Rightarrow> Inl e
           | Inr None \<Rightarrow> Inl AssertionError
           | Inr (Some result) \<Rightarrow> Inr result)
      | Inr _ \<Rightarrow> Inr True)"
| "tt_check_all kb alpha (P # rest) model =
     (case tt_check_all kb alpha rest (model(P \<mapsto> True)) of
        Inl e \<Rightarrow> Inl e
      | Inr False \<Rightarrow> Inr False
      | Inr True \<Rightarrow> tt_check_all kb alpha rest (model(P \<mapsto> False)))"

definition tt_entails :: "expr \<Rightarrow> expr \<Rightarrow> error + bool" where
  "tt_entails kb alpha =
     (case variables alpha of
        Inl e \<Rightarrow> Inl e
      | Inr vs \<Rightarrow>
          if vs \<noteq> [] then Inl AssertionError
          else tt_check_all kb alpha (symbol_list (Expr ''&'' [kb, alpha])) Map.empty)"

section \<open>Knowledge bases\<close>

text \<open>
  The state of a knowledge-base object is its attribute \<open>clauses\<close>; \<open>None\<close> stands for an
  object on which the attribute has not been set yet.
\<close>

record kb =
  clauses :: "expr list option"

text \<open>Truth value of a constructor or \<open>tell\<close> argument: \<open>None\<close> and \<open>False\<close> are false, an
  \<open>Expr\<close> object (the class defines no truth value of its own) is true.\<close>

fun truthy :: "expr \<Rightarrow> bool" where
  "truthy (Const b) = b"
| "truthy (Expr op args) = True"

text \<open>\<open>PropKB.tell\<close>: \<open>self.clauses.extend\<close> is looked up before its argument is computed.\<close>

definition PropKB_tell :: "kb \<Rightarrow> expr \<Rightarrow> error + kb" where
  "PropKB_tell self sentence =
     (case clauses self of
        None \<Rightarrow> Inl AttributeError
      | Some cs \<Rightarrow>
          (case to_cnf sentence of
             Inl e \<Rightarrow> Inl e
           | Inr c \<Rightarrow>
               (case conjuncts c of
                  Inl e \<Rightarrow> Inl e
                | Inr xs \<Rightarrow> Inr (self\<lparr>clauses := Some (cs @ xs)\<rparr>))))"

text \<open>\<open>PropKB.retract\<close>: \<open>self.clauses\<close> is read in the loop body, once per conjunct.\<close>

definition PropKB_retract :: "kb \<Rightarrow> expr \<Rightarrow> error + kb" where
  "PropKB_retract self sentence =
     (case to_cnf sentence of
        Inl e \<Rightarrow> Inl e
      | Inr c \<Rightarrow>
          (case conjuncts c of
             Inl e \<Rightarrow> Inl e
           | Inr xs \<Rightarrow>
               if xs = [] then Inr self
               else
                 (case clauses self of
                    None \<Rightarrow> Inl AttributeError
                  | Some cs \<Rightarrow> Inr (self\<lparr>clauses := Some (fold remove1 xs cs)\<rparr>))))"

text \<open>
  \<open>KB.ask\<close> over \<open>PropKB.ask_generator\<close>: the generator yields the empty substitution when
  the conjunction of the clauses entails the query, and \<open>ask\<close> returns it, or \<open>False\<close>.
  The result here is whether a substitution was yielded.
\<close>

definition PropKB_ask :: "kb \<Rightarrow> expr \<Rightarrow> error + bool" where
  "PropKB_ask self query =
     (case clauses self of
        None \<Rightarrow> Inl AttributeError
      | Some cs \<Rightarrow> tt_entails (Expr ''&'' cs) query)"

text \<open>
  \<open>KB.__init__\<close> calls the \<open>tell\<close> of the object's class; \<open>PropKB.__init__\<close> runs it on the
  fresh object and sets \<open>clauses\<close> afterwards. \<open>PropKB_SAT\<close> defines no constructor.
\<close>

definition KB_init :: "(kb \<Rightarrow> expr \<Rightarrow> error + kb) \<Rightarrow> kb \<Rightarrow> expr option \<Rightarrow> error + kb" where
  "KB_init tell self sentence =
     (case sentence of
        None \<Rightarrow> Inr self
      | Some s \<Rightarrow> if truthy s then tell self s else Inr self)"

definition PropKB_init_with :: "(kb \<Rightarrow> expr \<Rightarrow> error + kb) \<Rightarrow> expr option \<Rightarrow> error + kb" where
  "PropKB_init_with tell sentence =
     (case KB_init tell \<lparr>clauses = None\<rparr> sentence of
        Inl e \<Rightarrow> Inl e
      | Inr self \<Rightarrow> Inr (self\<lparr>clauses := Some []\<rparr>))"

definition PropKB_init :: "expr option \<Rightarrow> error + kb" where
  "PropKB_init sentence = PropKB_init_with PropKB_tell sentence"

text \<open>\<open>PropKB_SAT\<close>: \<open>tell\<close> guards the inherited one; \<open>retract\<close> is inherited.\<close>

definition PropKB_SAT_tell :: "kb \<Rightarrow> expr \<Rightarrow> error + kb" where
  "PropKB_SAT_tell self sentence =
     (if truthy sentence then PropKB_tell self sentence else Inr self)"

definition PropKB_SAT_retract :: "kb \<Rightarrow> expr \<Rightarrow> error + kb" where
  "PropKB_SAT_retract self sentence = PropKB_retract self sentence"

definition PropKB_SAT_init :: "expr option \<Rightarrow> error + kb" where
  "PropKB_SAT_init sentence = PropKB_init_with PropKB_SAT_tell sentence"

text \<open>
  The satisfiability solver is an external process: \<open>solve\<close> stands for
  \<open>Minisat().solve(clauses, variable, value).success\<close>. Each call of the wrapper \<open>minisat\<close> is
  recorded in a log of probes, so that the calls \<open>ask\<close> makes can be counted. A query given
  as a string is parsed first; here it is an expression already.
\<close>

record probe =
  probe_clauses :: "expr list"
  probe_variable :: "expr option"
  probe_value :: bool

type_synonym solver = "expr list \<Rightarrow> expr option \<Rightarrow> bool \<Rightarrow> bool"

definition minisat ::
  "solver \<Rightarrow> expr list \<Rightarrow> expr option \<Rightarrow> expr option \<Rightarrow> bool \<Rightarrow> probe list \<Rightarrow> bool \<times> probe list" where
  "minisat solve cls query variable val log =
     (let c = (case query of
                 None \<Rightarrow> cls
               | Some q \<Rightarrow> if truthy q then cls @ [q] else cls)
      in (solve c variable val,
          log @ [\<lparr>probe_clauses = c, probe_variable = variable, probe_value = val\<rparr>]))"

definition PropKB_SAT_ask ::
  "solver \<Rightarrow> kb \<Rightarrow> expr \<Rightarrow> probe list \<Rightarrow> error + (bool option \<times> probe list)" where
  "PropKB_SAT_ask solve self query log =
     (case clauses self of
        None \<Rightarrow> Inl AttributeError
      | Some cs \<Rightarrow>
          (let (s_true, log1) = minisat solve cs None (Some query) True log;
               (s_false, log2) = minisat solve cs None (Some query) False log1
           in Inr (if s_true = s_false then None else Some s_true, log2)))"

section \<open>Sentences and their two-valued reading\<close>

text \<open>
  The classical truth value of a sentence under an assignment, used to state what the
  evaluator and the normalizer compute. It follows the evaluator's vocabulary: constants,
  proposition symbols, negation of the first argument, n-ary disjunction and conjunction,
  and the binary operators.
\<close>

fun holds :: "(expr \<rightharpoonup> bool) \<Rightarrow> expr \<Rightarrow> bool" where
  "holds m (Const b) = b"
| "holds m (Expr op args) =
     (if is_prop_symbol op then m (Expr op args) = Some True
      else if op = ''~'' then (case args of [] \<Rightarrow> False | a # _ \<Rightarrow> \<not> holds m a)
      else if op = ''|'' then list_ex (holds m) args
      else if op = ''&'' then list_all (holds m) args
      else
        (case args of
           [p, q] \<Rightarrow>
             if op = ''>>'' \<or> op = ''==>'' then holds m p \<longrightarrow> holds m q
             else if op = ''<<'' \<or> op = ''<=='' then holds m q \<longrightarrow> holds m p
             else if op = ''<=>'' then holds m p = holds m q
             else holds m p \<noteq> holds m q
         | _ \<Rightarrow> False))"

text \<open>
  The sentences of the evaluator's vocabulary: a proposition symbol has no arguments,
  negation has one, disjunction and conjunction any number, the other operators two. The
  operands of an implication are \<open>Expr\<close> objects (for a Python boolean \<open>~\<close> is integer
  complement).
\<close>

fun is_Expr :: "expr \<Rightarrow> bool" where
  "is_Expr (Expr op args) = True"
| "is_Expr (Const b) = False"

fun pl_sentence :: "expr \<Rightarrow> bool" where
  "pl_sentence (Const b) = True"
| "pl_sentence (Expr op args) =
     (if is_prop_symbol op then args = []
      else if op = ''~'' then length args = 1 \<and> list_all pl_sentence args
      else if op = ''|'' \<or> op = ''&'' then list_all pl_sentence args
      else if op = ''>>'' \<or> op = ''==>'' \<or> op = ''<<'' \<or> op = ''<==''
        then length args = 2 \<and> list_all pl_sentence args \<and> list_all is_Expr args
      else (op = ''<=>'' \<or> op = ''^'') \<and> length args = 2 \<and> list_all pl_sentence args)"

declare holds.simps(2) [simp del]
declare pl_sentence.simps(2) [simp del]

text \<open>
  The total assignments in the order in which \<open>tt_check_all\<close> reaches them: depth first,
  each symbol first true, then false.
\<close>

fun assignments :: "expr list \<Rightarrow> (expr \<rightharpoonup> bool) \<Rightarrow> (expr \<rightharpoonup> bool) list" where
  "assignments [] model = [model]"
| "assignments (P # rest) model =
     assignments rest (model(P \<mapsto> True)) @ assignments rest (model(P \<mapsto> False))"

text \<open>
  The shapes a sentence goes through. \<open>sentence\<close>: what the operator syntax builds over
  proposition symbols (negation of one argument, disjunctions and conjunctions of at least
  one, the other operators of exactly two; no boolean constant). \<open>basic\<close>: only negation,
  disjunction and conjunction. \<open>nnf\<close>: negation only on symbols. \<open>clause\<close>: a literal, or
  a disjunction of at least two literals. \<open>cnf\<close>: a clause, or a conjunction of at least two
  clauses; so the only operators are \<open>~\<close>, \<open>&\<close>, \<open>|\<close>, and no conjunction stands inside a
  disjunction.
\<close>

fun atom :: "expr \<Rightarrow> bool" where
  "atom (Const b) = False"
| "atom (Expr op args) = (is_prop_symbol op \<and> args = [])"

fun literal :: "expr \<Rightarrow> bool" where
  "literal (Const b) = False"
| "literal (Expr op args) =
     (atom (Expr op args) \<or> (op = ''~'' \<and> (case args of [a] \<Rightarrow> atom a | _ \<Rightarrow> False)))"

fun sentence :: "expr \<Rightarrow> bool" where
  "sentence (Const b) = False"
| "sentence (Expr op args) =
     (if is_prop_symbol op then args = []
      else if op = ''~'' then length args = 1 \<and> list_all sentence args
      else if op = ''|'' \<or> op = ''&'' then args \<noteq> [] \<and> list_all sentence args
      else (op = ''>>'' \<or> op = ''==>'' \<or> op = ''<<'' \<or> op = ''<=='' \<or> op = ''<=>'' \<or> op = ''^'')
           \<and> length args = 2 \<and> list_all sentence args)"

fun basic :: "expr \<Rightarrow> bool" where
  "basic (Const b) = False"
| "basic (Expr op args) =
     (if is_prop_symbol op then args = []
      else if op = ''~'' then length args = 1 \<and> list_all basic args
      else (op = ''|'' \<or> op = ''&'') \<and> args \<noteq> [] \<and> list_all basic args)"

fun nnf :: "expr \<Rightarrow> bool" where
  "nnf (Const b) = False"
| "nnf (Expr op args) =
     (if is_prop_symbol op then args = []
      else if op = ''~'' then (case args of [a] \<Rightarrow> atom a | _ \<Rightarrow> False)
      else (op = ''|'' \<or> op = ''&'') \<and> args \<noteq> [] \<and> list_all nnf args)"

fun clause :: "expr \<Rightarrow> bool" where
  "clause (Const b) = False"
| "clause (Expr op args) =
     (literal (Expr op args) \<or> (op = ''|'' \<and> 2 \<le> length args \<and> list_all literal args))"

fun cnf :: "expr \<Rightarrow> bool" where
  "cnf (Const b) = False"
| "cnf (Expr op args) =
     (clause (Expr op args) \<or> (op = ''&'' \<and> 2 \<le> length args \<and> list_all clause args))"

text \<open>Two sentences with the same classical truth value under every assignment, the second
  using no symbol the first does not have.\<close>

definition same_meaning :: "expr \<Rightarrow> expr \<Rightarrow> bool" where
  "same_meaning x y \<longleftrightarrow> prop_symbols y \<subseteq> prop_symbols x \<and> (\<forall>m. holds m y = holds m x)"

declare sentence.simps(2) [simp del] basic.simps(2) [simp del] nnf.simps(2) [simp del]

text \<open>The invariant of the enumeration store: every stored element is a clause.\<close>

definition clause_store :: "kb \<Rightarrow> bool" where
  "clause_store self = (case clauses self of None \<Rightarrow> True | Some cs \<Rightarrow> list_all clause cs)"

text \<open>
  What the external solver is asked: whether some total assignment over the symbols of the
  clauses and the pinned variable gives the variable the forced value and makes every
  clause true. A solver is correct when its success flag answers this question, for
  clause lists of sentences and a proposition symbol as the pinned variable.
\<close>

definition satisfiable_with :: "expr list \<Rightarrow> expr \<Rightarrow> bool \<Rightarrow> bool" where
  "satisfiable_with cls v b \<longleftrightarrow>
     (\<exists>m. dom m = prop_symbols (Expr ''&'' (v # cls)) \<and> m v = Some b \<and>
          (\<forall>c\<in>set cls. pl_true c m = Inr (Some True)))"

definition oracle_correct :: "solver \<Rightarrow> bool" where
  "oracle_correct solve \<longleftrightarrow>
     (\<forall>cls v b. list_all sentence cls \<and> atom v \<longrightarrow> solve cls (Some v) b = satisfiable_with cls v b)"

text \<open>
  The three-valued answer of the enumeration knowledge base for a query, in the words of
  the specification: true when the stored clauses entail the query, false when they entail
  its negation, unknown otherwise; both through \<open>PropKB.ask\<close>, that is \<open>tt_entails\<close>.
\<close>

definition enumeration_answer :: "kb \<Rightarrow> expr \<Rightarrow> error + bool option" where
  "enumeration_answer self query =
     (case PropKB_ask self query of
        Inl e \<Rightarrow> Inl e
      | Inr True \<Rightarrow> Inr (Some True)
      | Inr False \<Rightarrow>
          (case PropKB_ask self (Expr ''~'' [query]) of
             Inl e \<Rightarrow> Inl e
           | Inr True \<Rightarrow> Inr (Some False)
           | Inr False \<Rightarrow> Inr None))"

text \<open>
  A solver by enumeration, used as a concrete correct solver: the clauses are satisfiable
  with the variable forced to a value exactly when they do not entail the opposite literal.
\<close>

definition tt_solve :: solver where
  "tt_solve cls variable val =
     (case variable of
        None \<Rightarrow> tt_entails (Expr ''&'' cls) (Const False) = Inr False
      | Some v \<Rightarrow> tt_entails (Expr ''&'' cls) (if val then Expr ''~'' [v] else v) = Inr False)"

section \<open>Operator strings\<close>

lemma is_prop_symbol_ops [simp]:
  "\<not> is_prop_symbol ''~''" "\<not> is_prop_symbol ''|''" "\<not> is_prop_symbol ''&''"
  "\<not> is_prop_symbol ''>>''" "\<not> is_prop_symbol ''==>''" "\<not> is_prop_symbol ''<<''"
  "\<not> is_prop_symbol ''<==''" "\<not> is_prop_symbol ''<=>''" "\<not> is_prop_symbol ''^''"
  "\<not> is_prop_symbol ''+''"
  by (simp_all add: is_prop_symbol_def is_symbol_def isalpha_def isupper_def)

lemma is_symbol_ops [simp]:
  "\<not> is_symbol ''~''" "\<not> is_symbol ''|''" "\<not> is_symbol ''&''"
  "\<not> is_symbol ''>>''" "\<not> is_symbol ''==>''" "\<not> is_symbol ''<<''"
  "\<not> is_symbol ''<==''" "\<not> is_symbol ''<=>''" "\<not> is_symbol ''^''"
  by (simp_all add: is_symbol_def isalpha_def)

lemma is_prop_symbol_is_symbol: "is_prop_symbol s \<Longrightarrow> is_symbol s"
  by (simp add: is_prop_symbol_def)

lemma is_prop_symbol_PQ [simp]:
  "is_prop_symbol ''P''" "is_prop_symbol ''Q''" "is_prop_symbol ''A''" "is_prop_symbol ''B''"
  by (simp_all add: is_prop_symbol_def is_symbol_def isalpha_def isupper_def)

section \<open>Three-valued disjunction and conjunction\<close>

lemma or_loop_no_fault:
  "\<forall>r\<in>set rs. \<exists>v. r = Inr v \<Longrightarrow>
   or_loop rs acc =
     Inr (if Inr (Some True) \<in> set rs then Some True
          else if Inr None \<in> set rs then None else acc)"
proof (induction rs arbitrary: acc)
  case Nil
  show ?case by simp
next
  case (Cons r rs)
  then obtain v where r: "r = Inr v" by auto
  from Cons.prems have rest: "\<forall>r\<in>set rs. \<exists>v. r = Inr v" by simp
  show ?case
    using Cons.IH [OF rest] r by (cases v) auto
qed

lemma and_loop_no_fault:
  "\<forall>r\<in>set rs. \<exists>v. r = Inr v \<Longrightarrow>
   and_loop rs acc =
     Inr (if Inr (Some False) \<in> set rs then Some False
          else if Inr None \<in> set rs then None else acc)"
proof (induction rs arbitrary: acc)
  case Nil
  show ?case by simp
next
  case (Cons r rs)
  then obtain v where r: "r = Inr v" by auto
  from Cons.prems have rest: "\<forall>r\<in>set rs. \<exists>v. r = Inr v" by simp
  show ?case
    using Cons.IH [OF rest] r by (cases v) auto
qed

lemma or_loop_short_circuit:
  "\<forall>r\<in>set pre. \<exists>v. r = Inr v \<Longrightarrow> or_loop (pre @ Inr (Some True) # post) acc = Inr (Some True)"
  by (induction pre arbitrary: acc) auto

lemma and_loop_short_circuit:
  "\<forall>r\<in>set pre. \<exists>v. r = Inr v \<Longrightarrow> and_loop (pre @ Inr (Some False) # post) acc = Inr (Some False)"
  by (induction pre arbitrary: acc) auto

lemma pl_true_or: "pl_true (Expr ''|'' args) m = or_loop (map (\<lambda>arg. pl_true arg m) args) (Some False)"
  by (simp add: pl_true.simps(2))

lemma pl_true_and: "pl_true (Expr ''&'' args) m = and_loop (map (\<lambda>arg. pl_true arg m) args) (Some True)"
  by (simp add: pl_true.simps(2))

lemma pl_true_symbol: "is_prop_symbol op \<Longrightarrow> pl_true (Expr op args) m = Inr (m (Expr op args))"
  by (simp add: pl_true.simps(2))

text \<open>
  C6. When no argument faults, an n-ary disjunction is true if some argument is true
  (whatever the others are, unknown included), unknown if none is true and some argument
  is unknown, and false otherwise; an n-ary conjunction is false if some argument is false,
  otherwise unknown if some argument is unknown, otherwise true. The disjunction is true
  already when the arguments before the first true one do not fault, and the conjunction
  false when those before the first false one do not. \<open>pl_true(P | Q, {P: True})\<close> is true
  with \<open>Q\<close> unbound, and \<open>pl_true(P, {})\<close> is unknown.
\<close>

theorem pl_true_three_valued_dominance:
  "((\<forall>a\<in>set args. \<exists>v. pl_true a m = Inr v) \<longrightarrow>
      pl_true (Expr ''|'' args) m =
        Inr (if \<exists>a\<in>set args. pl_true a m = Inr (Some True) then Some True
             else if \<exists>a\<in>set args. pl_true a m = Inr None then None else Some False) \<and>
      pl_true (Expr ''&'' args) m =
        Inr (if \<exists>a\<in>set args. pl_true a m = Inr (Some False) then Some False
             else if \<exists>a\<in>set args. pl_true a m = Inr None then None else Some True)) \<and>
   ((\<forall>a\<in>set pre. \<exists>v. pl_true a m = Inr v) \<and> pl_true t m = Inr (Some True) \<longrightarrow>
      pl_true (Expr ''|'' (pre @ t # post)) m = Inr (Some True)) \<and>
   ((\<forall>a\<in>set pre. \<exists>v. pl_true a m = Inr v) \<and> pl_true f m = Inr (Some False) \<longrightarrow>
      pl_true (Expr ''&'' (pre @ f # post)) m = Inr (Some False)) \<and>
   pl_true (Expr ''|'' [Expr ''P'' [], Expr ''Q'' []]) [Expr ''P'' [] \<mapsto> True] = Inr (Some True) \<and>
   pl_true (Expr ''P'' []) Map.empty = Inr None"
proof -
  have A: "pl_true (Expr ''|'' args) m =
        Inr (if \<exists>a\<in>set args. pl_true a m = Inr (Some True) then Some True
             else if \<exists>a\<in>set args. pl_true a m = Inr None then None else Some False)"
    if "\<forall>a\<in>set args. \<exists>v. pl_true a m = Inr v"
  proof -
    from that have "\<forall>r\<in>set (map (\<lambda>arg. pl_true arg m) args). \<exists>v. r = Inr v" by auto
    from or_loop_no_fault [OF this] show ?thesis
      by (simp add: pl_true_or image_iff) metis
  qed
  have B: "pl_true (Expr ''&'' args) m =
        Inr (if \<exists>a\<in>set args. pl_true a m = Inr (Some False) then Some False
             else if \<exists>a\<in>set args. pl_true a m = Inr None then None else Some True)"
    if "\<forall>a\<in>set args. \<exists>v. pl_true a m = Inr v"
  proof -
    from that have "\<forall>r\<in>set (map (\<lambda>arg. pl_true arg m) args). \<exists>v. r = Inr v" by auto
    from and_loop_no_fault [OF this] show ?thesis
      by (simp add: pl_true_and image_iff) metis
  qed
  have C: "pl_true (Expr ''|'' (pre @ t # post)) m = Inr (Some True)"
    if "\<forall>a\<in>set pre. \<exists>v. pl_true a m = Inr v" "pl_true t m = Inr (Some True)"
  proof -
    from that(1) have "\<forall>r\<in>set (map (\<lambda>arg. pl_true arg m) pre). \<exists>v. r = Inr v" by auto
    from or_loop_short_circuit [OF this] that(2) show ?thesis
      by (simp add: pl_true_or)
  qed
  have D: "pl_true (Expr ''&'' (pre @ f # post)) m = Inr (Some False)"
    if "\<forall>a\<in>set pre. \<exists>v. pl_true a m = Inr v" "pl_true f m = Inr (Some False)"
  proof -
    from that(1) have "\<forall>r\<in>set (map (\<lambda>arg. pl_true arg m) pre). \<exists>v. r = Inr v" by auto
    from and_loop_short_circuit [OF this] that(2) show ?thesis
      by (simp add: pl_true_and)
  qed
  have E: "pl_true (Expr ''|'' [Expr ''P'' [], Expr ''Q'' []]) [Expr ''P'' [] \<mapsto> True] = Inr (Some True)"
    by (simp add: pl_true_or pl_true_symbol)
  have F: "pl_true (Expr ''P'' []) Map.empty = Inr None"
    by (simp add: pl_true_symbol)
  from A B C D E F show ?thesis by blast
qed

theorem pl_true_three_valued_dominance_witness:
  "pl_true (Expr ''|'' [Expr ''Q'' [], Expr ''P'' []]) [Expr ''P'' [] \<mapsto> True] = Inr (Some True) \<and>
   pl_true (Expr ''&'' [Expr ''Q'' [], Expr ''P'' []]) [Expr ''P'' [] \<mapsto> True] = Inr None \<and>
   pl_true (Expr ''|'' ([Expr ''Q'' []] @ Expr ''P'' [] # [Const True])) [Expr ''P'' [] \<mapsto> True]
     = Inr (Some True) \<and>
   pl_true (Expr ''&'' ([Expr ''Q'' []] @ Const False # [Const True])) [Expr ''P'' [] \<mapsto> True]
     = Inr (Some False)"
  using pl_true_three_valued_dominance
    [where args = "[Expr ''Q'' [], Expr ''P'' []]" and m = "[Expr ''P'' [] \<mapsto> True]"
       and pre = "[Expr ''Q'' []]" and t = "Expr ''P'' []" and post = "[Const True]"
       and f = "Const False"]
  by (simp add: pl_true_symbol)

text \<open>
  C9. An operator outside the evaluator's vocabulary does not always raise the
  illegal-operator error: the operands are evaluated first, and an unknown operand makes
  \<open>pl_true\<close> return unknown before the operator is looked at. With both operands known the
  error is raised; with an arity other than two the unpacking of the arguments fails instead.
\<close>

theorem pl_true_illegal_operator_unknown_operand:
  "pl_true (Expr ''+'' [Expr ''P'' [], Expr ''Q'' []]) Map.empty = Inr None \<and>
   pl_true (Expr ''+'' [Expr ''P'' [], Expr ''Q'' []]) [Expr ''P'' [] \<mapsto> True, Expr ''Q'' [] \<mapsto> False]
     = Inl ValueError_illegal_operator \<and>
   pl_true (Expr ''+'' [Expr ''P'' []]) [Expr ''P'' [] \<mapsto> True] = Inl ValueError_unpack"
  by (simp add: pl_true.simps(2))

section \<open>Construction of a knowledge base\<close>

text \<open>
  C10. Constructing a \<open>PropKB\<close> or a \<open>PropKB_SAT\<close> with a sentence that counts as true
  faults: \<open>tell\<close> runs before the attribute \<open>clauses\<close> exists. A construction that returns
  (without a sentence, or with one that counts as false) gives the empty clause store, and
  whatever the \<open>tell\<close> of the class did, a construction that returns ends by setting the store
  to the empty list.
\<close>

theorem PropKB_init_with_sentence_faults:
  "(truthy s \<longrightarrow>
      PropKB_init (Some s) = Inl AttributeError \<and> PropKB_SAT_init (Some s) = Inl AttributeError) \<and>
   (\<not> truthy s \<longrightarrow>
      PropKB_init (Some s) = Inr \<lparr>clauses = Some []\<rparr> \<and>
      PropKB_SAT_init (Some s) = Inr \<lparr>clauses = Some []\<rparr>) \<and>
   PropKB_init None = Inr \<lparr>clauses = Some []\<rparr> \<and>
   PropKB_SAT_init None = Inr \<lparr>clauses = Some []\<rparr> \<and>
   (PropKB_init_with tell x = Inr self \<longrightarrow> clauses self = Some [])"
  by (auto simp: PropKB_init_def PropKB_SAT_init_def PropKB_init_with_def KB_init_def
        PropKB_tell_def PropKB_SAT_tell_def split: option.splits sum.splits)

theorem PropKB_init_with_sentence_faults_witness:
  "PropKB_init (Some (Expr ''&'' [Expr ''P'' [], Expr ''Q'' []])) = Inl AttributeError \<and>
   PropKB_SAT_init (Some (Expr ''&'' [Expr ''P'' [], Expr ''Q'' []])) = Inl AttributeError \<and>
   PropKB_init (Some (Const False)) = Inr \<lparr>clauses = Some []\<rparr> \<and>
   PropKB_init_with (\<lambda>self s. Inr (self\<lparr>clauses := Some [s]\<rparr>)) (Some (Expr ''P'' []))
     = Inr \<lparr>clauses = Some []\<rparr>"
  using PropKB_init_with_sentence_faults
      [of "Expr ''&'' [Expr ''P'' [], Expr ''Q'' []]"
          "\<lambda>self s. Inr (self\<lparr>clauses := Some [s]\<rparr>)" "Some (Expr ''P'' [])"
          "\<lparr>clauses = Some []\<rparr>"]
    PropKB_init_with_sentence_faults
      [of "Const False" "\<lambda>self s. Inr (self\<lparr>clauses := Some [s]\<rparr>)" "Some (Expr ''P'' [])"
          "\<lparr>clauses = Some []\<rparr>"]
  by (simp add: PropKB_init_with_def KB_init_def)

section \<open>Asking the oracle-backed knowledge base\<close>

text \<open>
  C3. On an initialised store, \<open>PropKB_SAT.ask\<close> makes exactly two calls of the solver, both
  over the stored clauses with no added query: the first with the query variable forced
  true, the second with it forced false. It answers true when only the first succeeds,
  false when only the second succeeds, and \<open>None\<close> (unknown) when both succeed or both fail.
\<close>

theorem PropKB_SAT_ask_two_probes:
  "clauses self = Some cs \<longrightarrow>
   PropKB_SAT_ask solve self query log =
     Inr (if solve cs (Some query) True \<and> \<not> solve cs (Some query) False then Some True
          else if \<not> solve cs (Some query) True \<and> solve cs (Some query) False then Some False
          else None,
          log @ [\<lparr>probe_clauses = cs, probe_variable = Some query, probe_value = True\<rparr>,
                 \<lparr>probe_clauses = cs, probe_variable = Some query, probe_value = False\<rparr>])"
  by (auto simp: PropKB_SAT_ask_def minisat_def)

theorem PropKB_SAT_ask_two_probes_witness:
  "PropKB_SAT_ask (\<lambda>cs v b. b) \<lparr>clauses = Some [Expr ''P'' []]\<rparr> (Expr ''P'' []) [] =
     Inr (Some True,
          [\<lparr>probe_clauses = [Expr ''P'' []], probe_variable = Some (Expr ''P'' []), probe_value = True\<rparr>,
           \<lparr>probe_clauses = [Expr ''P'' []], probe_variable = Some (Expr ''P'' []), probe_value = False\<rparr>])"
  using PropKB_SAT_ask_two_probes
    [of "\<lparr>clauses = Some [Expr ''P'' []]\<rparr>" "[Expr ''P'' []]" "\<lambda>cs v b. b" "Expr ''P'' []" "[]"]
  by simp

section \<open>The evaluator on total assignments\<close>

lemma or_loop_definite:
  "or_loop (map (\<lambda>a. Inr (Some (f a))) xs) (Some False) = Inr (Some (list_ex f xs))"
  by (induction xs) auto

lemma and_loop_definite:
  "and_loop (map (\<lambda>a. Inr (Some (f a))) xs) (Some True) = Inr (Some (list_all f xs))"
  by (induction xs) auto

lemma length_2E: "length xs = 2 \<Longrightarrow> \<exists>p q. xs = [p, q]"
  by (cases xs; cases "tl xs") auto

lemma length_1E: "length xs = Suc 0 \<Longrightarrow> \<exists>a. xs = [a]"
  by (cases xs) auto

lemma holds_simps [simp]:
  "is_prop_symbol op \<Longrightarrow> holds m (Expr op args) = (m (Expr op args) = Some True)"
  "holds m (Expr ''~'' (a # as)) = (\<not> holds m a)"
  "holds m (Expr ''|'' args) = list_ex (holds m) args"
  "holds m (Expr ''&'' args) = list_all (holds m) args"
  "holds m (Expr ''>>'' [p, q]) = (holds m p \<longrightarrow> holds m q)"
  "holds m (Expr ''==>'' [p, q]) = (holds m p \<longrightarrow> holds m q)"
  "holds m (Expr ''<<'' [p, q]) = (holds m q \<longrightarrow> holds m p)"
  "holds m (Expr ''<=='' [p, q]) = (holds m q \<longrightarrow> holds m p)"
  "holds m (Expr ''<=>'' [p, q]) = (holds m p = holds m q)"
  "holds m (Expr ''^'' [p, q]) = (holds m p \<noteq> holds m q)"
  by (simp_all add: holds.simps(2))

lemma pl_sentence_simps [simp]:
  "is_prop_symbol op \<Longrightarrow> pl_sentence (Expr op args) = (args = [])"
  "pl_sentence (Expr ''~'' args) = (length args = 1 \<and> list_all pl_sentence args)"
  "pl_sentence (Expr ''|'' args) = list_all pl_sentence args"
  "pl_sentence (Expr ''&'' args) = list_all pl_sentence args"
  "pl_sentence (Expr ''>>'' args) = (length args = 2 \<and> list_all pl_sentence args \<and> list_all is_Expr args)"
  "pl_sentence (Expr ''==>'' args) = (length args = 2 \<and> list_all pl_sentence args \<and> list_all is_Expr args)"
  "pl_sentence (Expr ''<<'' args) = (length args = 2 \<and> list_all pl_sentence args \<and> list_all is_Expr args)"
  "pl_sentence (Expr ''<=='' args) = (length args = 2 \<and> list_all pl_sentence args \<and> list_all is_Expr args)"
  "pl_sentence (Expr ''<=>'' args) = (length args = 2 \<and> list_all pl_sentence args)"
  "pl_sentence (Expr ''^'' args) = (length args = 2 \<and> list_all pl_sentence args)"
  by (simp_all add: pl_sentence.simps(2))

lemma pl_sentence_ops:
  assumes "pl_sentence (Expr op args)" and "\<not> is_prop_symbol op"
  shows "op = ''~'' \<or> op = ''|'' \<or> op = ''&'' \<or> op = ''>>'' \<or> op = ''==>'' \<or> op = ''<<''
         \<or> op = ''<=='' \<or> op = ''<=>'' \<or> op = ''^''"
  using assms unfolding pl_sentence.simps(2) by metis

lemma prop_symbols_op [simp]:
  "\<not> is_prop_symbol op \<Longrightarrow> prop_symbols (Expr op args) = \<Union> (set (map prop_symbols args))"
  "is_prop_symbol op \<Longrightarrow> prop_symbols (Expr op args) = {Expr op args}"
  by simp_all

declare prop_symbols.simps(2) [simp del]

lemma pl_true_binary_simps:
  "pl_true (Expr ''>>'' [Expr pop pargs, q]) m = pl_true (Expr ''|'' [Expr ''~'' [Expr pop pargs], q]) m"
  "pl_true (Expr ''==>'' [Expr pop pargs, q]) m = pl_true (Expr ''|'' [Expr ''~'' [Expr pop pargs], q]) m"
  "pl_true (Expr ''<<'' [p, Expr qop qargs]) m = pl_true (Expr ''|'' [p, Expr ''~'' [Expr qop qargs]]) m"
  "pl_true (Expr ''<=='' [p, Expr qop qargs]) m = pl_true (Expr ''|'' [p, Expr ''~'' [Expr qop qargs]]) m"
  "pl_true p m = Inr (Some pt) \<Longrightarrow> pl_true q m = Inr (Some qt) \<Longrightarrow>
     pl_true (Expr ''<=>'' [p, q]) m = Inr (Some (pt = qt))"
  "pl_true p m = Inr (Some pt) \<Longrightarrow> pl_true q m = Inr (Some qt) \<Longrightarrow>
     pl_true (Expr ''^'' [p, q]) m = Inr (Some (pt \<noteq> qt))"
  by (simp_all add: pl_true.simps(2) [of "''>>''"] pl_true.simps(2) [of "''==>''"]
        pl_true.simps(2) [of "''<<''"] pl_true.simps(2) [of "''<==''"]
        pl_true.simps(2) [of "''<=>''"] pl_true.simps(2) [of "''^''"])

lemma pl_true_not: "pl_true a m = Inr (Some b) \<Longrightarrow> pl_true (Expr ''~'' (a # as)) m = Inr (Some (\<not> b))"
  by (simp add: pl_true.simps(2) [of "''~''"])

lemma pl_true_holds:
  "pl_sentence e \<Longrightarrow> prop_symbols e \<subseteq> dom m \<Longrightarrow> pl_true e m = Inr (Some (holds m e))"
proof (induction e m rule: pl_true.induct)
  case (1 b model)
  show ?case by simp
next
  case (2 op args model)
  show ?case
  proof (cases "is_prop_symbol op")
    case True
    with "2.prems" show ?thesis by (auto simp: pl_true.simps(2))
  next
    case np: False
    have sub: "\<And>a. a \<in> set args \<Longrightarrow> prop_symbols a \<subseteq> dom model"
      using "2.prems"(2) np by auto
    consider (c_neg) "op = ''~''" | (c_or) "op = ''|''" | (c_and) "op = ''&''"
      | (c_imp) "op = ''>>'' \<or> op = ''==>''" | (c_rimp) "op = ''<<'' \<or> op = ''<==''"
      | (c_iff) "op = ''<=>''" | (c_xor) "op = ''^''"
      using pl_sentence_ops [OF "2.prems"(1) np] by blast
    then show ?thesis
    proof cases
      case c_neg
      from c_neg "2.prems"(1) have l: "length args = Suc 0" "list_all pl_sentence args"
        by auto
      from length_1E [OF l(1)] obtain a where a: "args = [a]" by blast
      with l sub have "pl_sentence a" "prop_symbols a \<subseteq> dom model" by auto
      then have "pl_true a model = Inr (Some (holds model a))"
        by (rule "2.IH"(1) [OF np c_neg a])
      then show ?thesis by (simp add: c_neg a pl_true_not)
    next
      case c_or
      have "\<And>a. a \<in> set args \<Longrightarrow> pl_true a model = Inr (Some (holds model a))"
        using "2.IH"(2) [OF np _ c_or] c_or "2.prems"(1) sub by (auto simp: list_all_iff)
      then have eq: "map (\<lambda>arg. pl_true arg model) args = map (\<lambda>a. Inr (Some (holds model a))) args"
        by simp
      show ?thesis
        unfolding c_or pl_true_or eq or_loop_definite by simp
    next
      case c_and
      have "\<And>a. a \<in> set args \<Longrightarrow> pl_true a model = Inr (Some (holds model a))"
        using "2.IH"(3) [OF np _ _ c_and] c_and "2.prems"(1) sub by (auto simp: list_all_iff)
      then have eq: "map (\<lambda>arg. pl_true arg model) args = map (\<lambda>a. Inr (Some (holds model a))) args"
        by simp
      show ?thesis
        unfolding c_and pl_true_and eq and_loop_definite by simp
    next
      case c_imp
      from c_imp "2.prems"(1) have l: "length args = 2" "list_all pl_sentence args" "list_all is_Expr args"
        by auto
      from length_2E [OF l(1)] obtain p q where pq: "args = [p, q]" by blast
      with l have a: "pl_sentence p" "pl_sentence q" "is_Expr p" "is_Expr q"
        by auto
      from a(3) obtain pop pargs where p: "p = Expr pop pargs" by (cases p) auto
      have ops: "op \<noteq> ''~''" "op \<noteq> ''|''" "op \<noteq> ''&''" using c_imp by auto
      have ps: "pl_sentence (Expr ''|'' [Expr ''~'' [p], q])" using a by simp
      have sy: "prop_symbols (Expr ''|'' [Expr ''~'' [p], q]) \<subseteq> dom model"
        using sub pq by simp
      have "pl_true (Expr ''|'' [Expr ''~'' [p], q]) model
              = Inr (Some (holds model (Expr ''|'' [Expr ''~'' [p], q])))"
        by (rule "2.IH"(4) [OF np ops pq refl refl c_imp p ps sy])
      then show ?thesis
        using c_imp by (auto simp: pq p pl_true_binary_simps)
    next
      case c_rimp
      from c_rimp "2.prems"(1) have l: "length args = 2" "list_all pl_sentence args" "list_all is_Expr args"
        by auto
      from length_2E [OF l(1)] obtain p q where pq: "args = [p, q]" by blast
      with l have a: "pl_sentence p" "pl_sentence q" "is_Expr p" "is_Expr q"
        by auto
      from a(4) obtain qop qargs where q: "q = Expr qop qargs" by (cases q) auto
      have ops: "op \<noteq> ''~''" "op \<noteq> ''|''" "op \<noteq> ''&''" "\<not> (op = ''>>'' \<or> op = ''==>'')"
        using c_rimp by auto
      have ps: "pl_sentence (Expr ''|'' [p, Expr ''~'' [q]])" using a by simp
      have sy: "prop_symbols (Expr ''|'' [p, Expr ''~'' [q]]) \<subseteq> dom model"
        using sub pq by simp
      have "pl_true (Expr ''|'' [p, Expr ''~'' [q]]) model
              = Inr (Some (holds model (Expr ''|'' [p, Expr ''~'' [q]])))"
        by (rule "2.IH"(6) [OF np ops(1-3) pq refl refl ops(4) c_rimp q ps sy])
      then show ?thesis
        using c_rimp by (auto simp: pq q pl_true_binary_simps)
    next
      case c_iff
      from c_iff "2.prems"(1) have l: "length args = 2" "list_all pl_sentence args"
        by auto
      from length_2E [OF l(1)] obtain p q where pq: "args = [p, q]" by blast
      with l have a: "pl_sentence p" "pl_sentence q"
        by auto
      have ops: "op \<noteq> ''~''" "op \<noteq> ''|''" "op \<noteq> ''&''" "\<not> (op = ''>>'' \<or> op = ''==>'')"
        "\<not> (op = ''<<'' \<or> op = ''<=='')"
        using c_iff by auto
      have sp: "prop_symbols p \<subseteq> dom model" and sq: "prop_symbols q \<subseteq> dom model"
        using sub pq by simp_all
      have P: "pl_true p model = Inr (Some (holds model p))"
        by (rule "2.IH"(7) [OF np ops(1-3) pq refl refl ops(4,5) a(1) sp])
      have Q: "pl_true q model = Inr (Some (holds model q))"
        by (rule "2.IH"(8) [OF np ops(1-3) pq refl refl ops(4,5) P refl a(2) sq])
      show ?thesis
        by (simp add: c_iff pq pl_true_binary_simps(5) [OF P Q])
    next
      case c_xor
      from c_xor "2.prems"(1) have l: "length args = 2" "list_all pl_sentence args"
        by auto
      from length_2E [OF l(1)] obtain p q where pq: "args = [p, q]" by blast
      with l have a: "pl_sentence p" "pl_sentence q"
        by auto
      have ops: "op \<noteq> ''~''" "op \<noteq> ''|''" "op \<noteq> ''&''" "\<not> (op = ''>>'' \<or> op = ''==>'')"
        "\<not> (op = ''<<'' \<or> op = ''<=='')"
        using c_xor by auto
      have sp: "prop_symbols p \<subseteq> dom model" and sq: "prop_symbols q \<subseteq> dom model"
        using sub pq by simp_all
      have P: "pl_true p model = Inr (Some (holds model p))"
        by (rule "2.IH"(7) [OF np ops(1-3) pq refl refl ops(4,5) a(1) sp])
      have Q: "pl_true q model = Inr (Some (holds model q))"
        by (rule "2.IH"(8) [OF np ops(1-3) pq refl refl ops(4,5) P refl a(2) sq])
      show ?thesis
        by (simp add: c_xor pq pl_true_binary_simps(6) [OF P Q])
    qed
  qed
qed

section \<open>Truth-table entailment\<close>

lemma all_models_insert:
  fixes model :: "'a \<rightharpoonup> 'b"
  assumes "P \<notin> S"
  shows "(\<forall>m. dom m = insert P S \<longrightarrow> Q (model ++ m)) =
         (\<forall>b. \<forall>m. dom m = S \<longrightarrow> Q (model(P \<mapsto> b) ++ m))"
proof (intro iffI allI impI)
  fix b :: 'b and m :: "'a \<rightharpoonup> 'b"
  assume all: "\<forall>m. dom m = insert P S \<longrightarrow> Q (model ++ m)" and d: "dom m = S"
  have "dom (m(P \<mapsto> b)) = insert P S" using d by simp
  with all have "Q (model ++ m(P \<mapsto> b))" by blast
  moreover have "m P = None" using d assms by auto
  then have "model ++ m(P \<mapsto> b) = model(P \<mapsto> b) ++ m"
    by (auto simp: map_add_def fun_eq_iff split: option.splits)
  ultimately show "Q (model(P \<mapsto> b) ++ m)" by simp
next
  fix m :: "'a \<rightharpoonup> 'b"
  assume all: "\<forall>b m. dom m = S \<longrightarrow> Q (model(P \<mapsto> b) ++ m)" and d: "dom m = insert P S"
  have "P \<in> dom m" using d by simp
  then obtain b where b: "m P = Some b" by auto
  have "dom (m |` S) = S" using d by auto
  with all have "Q (model(P \<mapsto> b) ++ (m |` S))" by blast
  moreover have "model(P \<mapsto> b) ++ (m |` S) = model ++ m"
  proof
    fix x
    show "(model(P \<mapsto> b) ++ (m |` S)) x = (model ++ m) x"
      using b d assms
      by (cases "x \<in> S") (auto simp: map_add_def restrict_map_def domIff split: option.splits)
  qed
  ultimately show "Q (model ++ m)" by simp
qed

lemma tt_check_all_holds:
  assumes "pl_sentence kb" and "pl_sentence alpha"
  shows "distinct symbols \<Longrightarrow> set symbols \<inter> dom model = {} \<Longrightarrow>
     prop_symbols kb \<union> prop_symbols alpha \<subseteq> dom model \<union> set symbols \<Longrightarrow>
     tt_check_all kb alpha symbols model =
       Inr (\<forall>m. dom m = set symbols \<longrightarrow> holds (model ++ m) kb \<longrightarrow> holds (model ++ m) alpha)"
proof (induction symbols arbitrary: model)
  case Nil
  then have "pl_true kb model = Inr (Some (holds model kb))"
    "pl_true alpha model = Inr (Some (holds model alpha))"
    using assms by (auto intro: pl_true_holds)
  then show ?case by (cases "holds model kb") simp_all
next
  case (Cons P rest)
  have P: "P \<notin> set rest" using Cons.prems(1) by simp
  have step: "tt_check_all kb alpha rest (model(P \<mapsto> b)) =
      Inr (\<forall>m. dom m = set rest \<longrightarrow> holds (model(P \<mapsto> b) ++ m) kb \<longrightarrow> holds (model(P \<mapsto> b) ++ m) alpha)"
    for b
  proof (rule Cons.IH)
    show "distinct rest" using Cons.prems(1) by simp
    show "set rest \<inter> dom (model(P \<mapsto> b)) = {}"
      using Cons.prems(1,2) by auto
    show "prop_symbols kb \<union> prop_symbols alpha \<subseteq> dom (model(P \<mapsto> b)) \<union> set rest"
      using Cons.prems(3) by auto
  qed
  have "tt_check_all kb alpha (P # rest) model =
      Inr (\<forall>b. \<forall>m. dom m = set rest \<longrightarrow> holds (model(P \<mapsto> b) ++ m) kb \<longrightarrow> holds (model(P \<mapsto> b) ++ m) alpha)"
    by (simp add: step all_bool_eq split: bool.splits)
  also have "(\<forall>b. \<forall>m. dom m = set rest \<longrightarrow> holds (model(P \<mapsto> b) ++ m) kb \<longrightarrow> holds (model(P \<mapsto> b) ++ m) alpha)
      = (\<forall>m. dom m = insert P (set rest) \<longrightarrow> holds (model ++ m) kb \<longrightarrow> holds (model ++ m) alpha)"
    using all_models_insert [OF P, of "\<lambda>m. holds m kb \<longrightarrow> holds m alpha" model] by simp
  finally show ?case by simp
qed

lemma dom_assignments:
  "m \<in> set (assignments symbols model) \<Longrightarrow> dom m = dom model \<union> set symbols"
proof (induction symbols arbitrary: model)
  case Nil
  then show ?case by simp
next
  case (Cons P rest)
  then obtain b where "m \<in> set (assignments rest (model(P \<mapsto> b)))" by auto
  from Cons.IH [OF this] show ?case by auto
qed

lemma length_assignments: "length (assignments symbols model) = 2 ^ length symbols"
  by (induction symbols arbitrary: model) auto

lemma tt_check_all_assignments:
  assumes "pl_sentence kb" and "pl_sentence alpha"
  shows "prop_symbols kb \<union> prop_symbols alpha \<subseteq> dom model \<union> set symbols \<Longrightarrow>
     tt_check_all kb alpha symbols model =
       Inr (list_all (\<lambda>m. holds m kb \<longrightarrow> holds m alpha) (assignments symbols model))"
proof (induction symbols arbitrary: model)
  case Nil
  then have "pl_true kb model = Inr (Some (holds model kb))"
    "pl_true alpha model = Inr (Some (holds model alpha))"
    using assms by (auto intro: pl_true_holds)
  then show ?case by (cases "holds model kb") simp_all
next
  case (Cons P rest)
  have step: "tt_check_all kb alpha rest (model(P \<mapsto> b)) =
      Inr (list_all (\<lambda>m. holds m kb \<longrightarrow> holds m alpha) (assignments rest (model(P \<mapsto> b))))"
    for b
    using Cons.prems by (intro Cons.IH) auto
  show ?case by (simp add: step split: bool.splits)
qed

lemma set_symbol_list: "set (symbol_list e) = prop_symbols e"
  by (induction e rule: symbol_list.induct) (auto simp: prop_symbols.simps(2))

lemma distinct_symbol_list: "distinct (symbol_list e)"
  by (cases e) auto

lemma islower_not_upper: "isupper c \<Longrightarrow> \<not> islower c"
  by (auto simp: isupper_def islower_def Let_def)

lemma pl_sentence_arg:
  assumes "pl_sentence (Expr op args)" and "a \<in> set args"
  shows "pl_sentence a"
proof (cases "is_prop_symbol op")
  case True
  with assms show ?thesis by simp
next
  case False
  from pl_sentence_ops [OF assms(1) False] assms show ?thesis
    by (auto simp: list_all_iff)
qed

lemma is_variable_op:
  assumes "op = ''~'' \<or> op = ''|'' \<or> op = ''&'' \<or> op = ''>>'' \<or> op = ''==>'' \<or> op = ''<<''
         \<or> op = ''<=='' \<or> op = ''<=>'' \<or> op = ''^''"
  shows "is_variable (Expr op args) = Inr False"
  using assms by (elim disjE) (simp_all add: islower_def)

lemma is_variable_prop_symbol:
  assumes "is_prop_symbol op"
  shows "is_variable (Expr op args) = Inr False"
proof -
  from assms obtain c cs where "op = c # cs" "isupper c"
    by (cases op) (simp_all add: is_prop_symbol_def is_symbol_def)
  then show ?thesis by (simp add: islower_not_upper)
qed

lemma pl_sentence_no_variable:
  "pl_sentence e \<Longrightarrow> x \<in> set (subexpressions e) \<Longrightarrow> is_variable x = Inr False"
proof (induction e rule: subexpressions.induct)
  case (1 b)
  then show ?case by simp
next
  case (2 op args)
  show ?case
  proof (cases "x = Expr op args")
    case True
    show ?thesis
    proof (cases "is_prop_symbol op")
      case True
      then show ?thesis unfolding \<open>x = Expr op args\<close> by (rule is_variable_prop_symbol)
    next
      case False
      from pl_sentence_ops [OF "2.prems"(1) False] show ?thesis
        unfolding \<open>x = Expr op args\<close> by (rule is_variable_op)
    qed
  next
    case False
    with "2.prems"(2) obtain a where a: "a \<in> set args" "x \<in> set (subexpressions a)"
      by auto
    from "2.IH" [OF a(1) pl_sentence_arg [OF "2.prems"(1) a(1)] a(2)] show ?thesis .
  qed
qed

lemma list_results_map_Inr:
  "(\<And>x. x \<in> set xs \<Longrightarrow> f x = Inr (g x)) \<Longrightarrow> list_results (map f xs) = Inr (map g xs)"
  by (induction xs) auto

lemma variables_pl_sentence: "pl_sentence e \<Longrightarrow> variables e = Inr []"
proof -
  assume ps: "pl_sentence e"
  have "list_results (map is_variable (subexpressions e)) = Inr (map (\<lambda>x. False) (subexpressions e))"
    by (rule list_results_map_Inr) (rule pl_sentence_no_variable [OF ps])
  moreover have "filter (\<lambda>x. is_variable x = Inr True) (subexpressions e) = []"
    using pl_sentence_no_variable [OF ps] by (auto simp: filter_empty_conv)
  ultimately show ?thesis by (simp add: variables_def)
qed

lemma tt_check_all_total:
  assumes "pl_sentence kb" and "pl_sentence alpha"
    and "distinct symbols" and "set symbols = prop_symbols (Expr ''&'' [kb, alpha])"
  shows "tt_check_all kb alpha symbols Map.empty =
     Inr (\<forall>m. dom m = prop_symbols (Expr ''&'' [kb, alpha]) \<and> pl_true kb m = Inr (Some True)
            \<longrightarrow> pl_true alpha m = Inr (Some True))"
proof -
  have cover: "prop_symbols kb \<union> prop_symbols alpha \<subseteq> set symbols"
    using assms(4) by simp
  have "tt_check_all kb alpha symbols Map.empty =
      Inr (\<forall>m. dom m = set symbols \<longrightarrow> holds (Map.empty ++ m) kb \<longrightarrow> holds (Map.empty ++ m) alpha)"
    using cover assms(3) by (intro tt_check_all_holds [OF assms(1,2)]) auto
  then have tt: "tt_check_all kb alpha symbols Map.empty =
      Inr (\<forall>m. dom m = set symbols \<longrightarrow> holds m kb \<longrightarrow> holds m alpha)"
    by simp
  have ev: "pl_true kb m = Inr (Some (holds m kb))" "pl_true alpha m = Inr (Some (holds m alpha))"
    if "dom m = set symbols" for m
    using that cover by (auto intro!: pl_true_holds assms(1,2))
  have "(\<forall>m. dom m = set symbols \<longrightarrow> holds m kb \<longrightarrow> holds m alpha) =
        (\<forall>m. dom m = set symbols \<and> pl_true kb m = Inr (Some True)
            \<longrightarrow> pl_true alpha m = Inr (Some True))"
  proof (intro iffI allI impI)
    fix m
    assume h: "\<forall>m. dom m = set symbols \<longrightarrow> holds m kb \<longrightarrow> holds m alpha"
      and d: "dom m = set symbols \<and> pl_true kb m = Inr (Some True)"
    from d ev [of m] have "holds m kb" by simp
    with h d have "holds m alpha" by blast
    with d ev [of m] show "pl_true alpha m = Inr (Some True)" by simp
  next
    fix m
    assume h: "\<forall>m. dom m = set symbols \<and> pl_true kb m = Inr (Some True)
            \<longrightarrow> pl_true alpha m = Inr (Some True)"
      and d: "dom m = set symbols" and k: "holds m kb"
    from d k ev [of m] have "pl_true kb m = Inr (Some True)" by simp
    with h d have "pl_true alpha m = Inr (Some True)" by blast
    with d ev [of m] show "holds m alpha" by simp
  qed
  with tt show ?thesis unfolding assms(4) by simp
qed

text \<open>
  C2. For sentences \<open>kb\<close> and \<open>alpha\<close> of the evaluator's vocabulary, \<open>tt_entails(kb, alpha)\<close>
  returns, without fault, whether every total assignment over the proposition symbols of
  \<open>kb & alpha\<close> that makes \<open>kb\<close> true under \<open>pl_true\<close> makes \<open>alpha\<close> true. The answer does
  not depend on the order in which the set of symbols is listed: \<open>tt_check_all\<close> gives it
  for every duplicate-free listing, it is the conjunction of the check "kb true implies alpha
  true" over the assignments in depth-first order (true before false), and there are
  2^N of them for N symbols.
\<close>

theorem tt_entails_decides_entailment:
  "pl_sentence kb \<and> pl_sentence alpha \<longrightarrow>
     tt_entails kb alpha =
       Inr (\<forall>m. dom m = prop_symbols (Expr ''&'' [kb, alpha]) \<and> pl_true kb m = Inr (Some True)
              \<longrightarrow> pl_true alpha m = Inr (Some True)) \<and>
     (distinct symbols \<and> set symbols = prop_symbols (Expr ''&'' [kb, alpha]) \<longrightarrow>
        tt_check_all kb alpha symbols Map.empty = tt_entails kb alpha \<and>
        tt_check_all kb alpha symbols Map.empty =
          Inr (list_all (\<lambda>m. pl_true kb m = Inr (Some True) \<longrightarrow> pl_true alpha m = Inr (Some True))
                 (assignments symbols Map.empty)) \<and>
        length (assignments symbols Map.empty) = 2 ^ card (prop_symbols (Expr ''&'' [kb, alpha])))"
proof (intro impI conjI; (elim conjE)?)
  assume ps: "pl_sentence kb" "pl_sentence alpha"
  have sl: "distinct (symbol_list (Expr ''&'' [kb, alpha]))"
    "set (symbol_list (Expr ''&'' [kb, alpha])) = prop_symbols (Expr ''&'' [kb, alpha])"
    by (rule distinct_symbol_list, rule set_symbol_list)
  show te: "tt_entails kb alpha =
       Inr (\<forall>m. dom m = prop_symbols (Expr ''&'' [kb, alpha]) \<and> pl_true kb m = Inr (Some True)
              \<longrightarrow> pl_true alpha m = Inr (Some True))"
    unfolding tt_entails_def variables_pl_sentence [OF ps(2)]
    using tt_check_all_total [OF ps sl] by simp
  assume sy: "distinct symbols" "set symbols = prop_symbols (Expr ''&'' [kb, alpha])"
  show "tt_check_all kb alpha symbols Map.empty = tt_entails kb alpha"
    unfolding te by (rule tt_check_all_total [OF ps sy])
  have cover: "prop_symbols kb \<union> prop_symbols alpha \<subseteq> dom Map.empty \<union> set symbols"
    using sy(2) by simp
  have ev: "pl_true kb m = Inr (Some (holds m kb))" "pl_true alpha m = Inr (Some (holds m alpha))"
    if "m \<in> set (assignments symbols Map.empty)" for m
    using dom_assignments [OF that] cover by (auto intro!: pl_true_holds ps)
  have "list_all (\<lambda>m. pl_true kb m = Inr (Some True) \<longrightarrow> pl_true alpha m = Inr (Some True))
                 (assignments symbols Map.empty)
        = list_all (\<lambda>m. holds m kb \<longrightarrow> holds m alpha) (assignments symbols Map.empty)"
    unfolding list_all_iff using ev by auto
  then show "tt_check_all kb alpha symbols Map.empty =
          Inr (list_all (\<lambda>m. pl_true kb m = Inr (Some True) \<longrightarrow> pl_true alpha m = Inr (Some True))
                 (assignments symbols Map.empty))"
    using tt_check_all_assignments [OF ps cover] by simp
  show "length (assignments symbols Map.empty) = 2 ^ card (prop_symbols (Expr ''&'' [kb, alpha]))"
    using sy distinct_card [of symbols] by (simp add: length_assignments del: prop_symbols_op)
qed

theorem tt_entails_decides_entailment_witness:
  "pl_sentence (Expr ''&'' [Expr ''P'' [], Expr ''Q'' []]) \<and> pl_sentence (Expr ''Q'' []) \<and>
   distinct [Expr ''Q'' [], Expr ''P'' []] \<and>
   tt_entails (Expr ''&'' [Expr ''P'' [], Expr ''Q'' []]) (Expr ''Q'' []) = Inr True \<and>
   tt_check_all (Expr ''&'' [Expr ''P'' [], Expr ''Q'' []]) (Expr ''Q'' [])
     [Expr ''Q'' [], Expr ''P'' []] Map.empty = Inr True \<and>
   length (assignments [Expr ''Q'' [], Expr ''P'' []] Map.empty) = 4 \<and>
   (\<forall>m. dom m = prop_symbols (Expr ''&'' [Expr ''&'' [Expr ''P'' [], Expr ''Q'' []], Expr ''Q'' []]) \<and>
         pl_true (Expr ''&'' [Expr ''P'' [], Expr ''Q'' []]) m = Inr (Some True)
      \<longrightarrow> pl_true (Expr ''Q'' []) m = Inr (Some True)) = True"
proof -
  let ?kb = "Expr ''&'' [Expr ''P'' [], Expr ''Q'' []]"
  let ?alpha = "Expr ''Q'' []"
  let ?symbols = "[Expr ''Q'' [], Expr ''P'' []]"
  have ps: "pl_sentence ?kb" "pl_sentence ?alpha" by simp_all
  have sy: "distinct ?symbols" "set ?symbols = prop_symbols (Expr ''&'' [?kb, ?alpha])"
    by auto
  have ev: "tt_entails ?kb ?alpha = Inr True"
    by (simp add: tt_entails_def variables_def islower_def pl_true_and pl_true_symbol)
  have card: "card (prop_symbols (Expr ''&'' [?kb, ?alpha])) = 2"
    using sy distinct_card [of ?symbols] by (simp del: prop_symbols_op)
  from tt_entails_decides_entailment [of ?kb ?alpha ?symbols] ps sy ev card
  show ?thesis by (simp del: prop_symbols_op)
qed

section \<open>The normalizer on sentences\<close>

lemma sentence_simps [simp]:
  "is_prop_symbol op \<Longrightarrow> sentence (Expr op args) = (args = [])"
  "sentence (Expr ''~'' args) = (length args = 1 \<and> list_all sentence args)"
  "sentence (Expr ''|'' args) = (args \<noteq> [] \<and> list_all sentence args)"
  "sentence (Expr ''&'' args) = (args \<noteq> [] \<and> list_all sentence args)"
  "sentence (Expr ''>>'' args) = (length args = 2 \<and> list_all sentence args)"
  "sentence (Expr ''==>'' args) = (length args = 2 \<and> list_all sentence args)"
  "sentence (Expr ''<<'' args) = (length args = 2 \<and> list_all sentence args)"
  "sentence (Expr ''<=='' args) = (length args = 2 \<and> list_all sentence args)"
  "sentence (Expr ''<=>'' args) = (length args = 2 \<and> list_all sentence args)"
  "sentence (Expr ''^'' args) = (length args = 2 \<and> list_all sentence args)"
  by (simp_all add: sentence.simps(2))

lemma basic_simps [simp]:
  "is_prop_symbol op \<Longrightarrow> basic (Expr op args) = (args = [])"
  "basic (Expr ''~'' args) = (length args = 1 \<and> list_all basic args)"
  "basic (Expr ''|'' args) = (args \<noteq> [] \<and> list_all basic args)"
  "basic (Expr ''&'' args) = (args \<noteq> [] \<and> list_all basic args)"
  by (simp_all add: basic.simps(2))

lemma nnf_simps [simp]:
  "is_prop_symbol op \<Longrightarrow> nnf (Expr op args) = (args = [])"
  "nnf (Expr ''~'' args) = (case args of [a] \<Rightarrow> atom a | _ \<Rightarrow> False)"
  "nnf (Expr ''|'' args) = (args \<noteq> [] \<and> list_all nnf args)"
  "nnf (Expr ''&'' args) = (args \<noteq> [] \<and> list_all nnf args)"
  by (simp_all add: nnf.simps(2))

lemma sentence_ops:
  assumes "sentence (Expr op args)" and "\<not> is_prop_symbol op"
  shows "op = ''~'' \<or> op = ''|'' \<or> op = ''&'' \<or> op = ''>>'' \<or> op = ''==>'' \<or> op = ''<<''
         \<or> op = ''<=='' \<or> op = ''<=>'' \<or> op = ''^''"
  using assms unfolding sentence.simps(2) by metis

lemma basic_ops:
  assumes "basic (Expr op args)" and "\<not> is_prop_symbol op"
  shows "op = ''~'' \<or> op = ''|'' \<or> op = ''&''"
  using assms unfolding basic.simps(2) by metis

lemma nnf_ops:
  assumes "nnf (Expr op args)" and "\<not> is_prop_symbol op"
  shows "op = ''~'' \<or> op = ''|'' \<or> op = ''&''"
  using assms unfolding nnf.simps(2) by metis

lemma same_meaning_refl [simp]: "same_meaning x x"
  by (simp add: same_meaning_def)

lemma same_meaning_trans: "same_meaning x y \<Longrightarrow> same_meaning y z \<Longrightarrow> same_meaning x z"
  by (auto simp: same_meaning_def)

lemma list_results_ex:
  "(\<And>x. x \<in> set xs \<Longrightarrow> \<exists>y. f x = Inr y \<and> P x y) \<Longrightarrow>
   \<exists>ys. list_results (map f xs) = Inr ys \<and> list_all2 P xs ys"
proof (induction xs)
  case Nil
  show ?case by simp
next
  case (Cons x xs)
  from Cons.prems [of x] obtain y where y: "f x = Inr y" "P x y" by auto
  from Cons.IH Cons.prems obtain ys where ys: "list_results (map f xs) = Inr ys" "list_all2 P xs ys"
    by auto
  from y ys show ?case by simp
qed

lemma list_all2_same_meaning:
  assumes "list_all2 (\<lambda>x y. Q y \<and> same_meaning (F x) y) xs ys"
  shows "list_all Q ys"
    and "\<Union> (set (map prop_symbols ys)) \<subseteq> \<Union> (set (map (\<lambda>x. prop_symbols (F x)) xs))"
    and "list_all (holds m) ys = list_all (\<lambda>x. holds m (F x)) xs"
    and "list_ex (holds m) ys = list_ex (\<lambda>x. holds m (F x)) xs"
    and "length ys = length xs"
  using assms
  by (induction xs ys rule: list_all2_induct) (auto simp: same_meaning_def)

lemma eliminate_implications_ok:
  "sentence s \<Longrightarrow> \<exists>t. eliminate_implications s = Inr t \<and> basic t \<and> same_meaning s t"
proof (induction s rule: eliminate_implications.induct)
  case (1 b)
  then show ?case by simp
next
  case (2 op args)
  show ?case
  proof (cases "is_prop_symbol op")
    case True
    with "2.prems" show ?thesis by (simp add: is_prop_symbol_is_symbol)
  next
    case np: False
    note ops = sentence_ops [OF "2.prems" np]
    have nsym: "\<not> is_symbol op" using ops by (elim disjE) simp_all
    have args: "args \<noteq> []" "list_all sentence args"
      using ops "2.prems" by (elim disjE; simp; fastforce)+
    have cond: "\<not> (args = [] \<or> is_symbol op)" using nsym args by simp
    have "\<exists>ys. list_results (map eliminate_implications args) = Inr ys \<and>
            list_all2 (\<lambda>x y. basic y \<and> same_meaning x y) args ys"
      using "2.IH" [OF cond] args(2) by (intro list_results_ex) (auto simp: list_all_iff)
    then obtain ys where ys: "list_results (map eliminate_implications args) = Inr ys"
      "list_all2 (\<lambda>x y. basic y \<and> same_meaning x y) args ys" by blast
    note R = list_all2_same_meaning [where F = "\<lambda>x. x" and Q = basic, OF ys(2)]
    have el: "eliminate_implications (Expr op args) =
        (let p = hd ys; q = last ys in
              if op = ''>>'' \<or> op = ''==>'' then Inr (Expr ''|'' [q, Expr ''~'' [p]])
              else if op = ''<<'' \<or> op = ''<=='' then Inr (Expr ''|'' [p, Expr ''~'' [q]])
              else if op = ''<=>'' then
                Inr (Expr ''&'' [Expr ''|'' [p, Expr ''~'' [q]], Expr ''|'' [q, Expr ''~'' [p]]])
              else if op = ''^'' then
                (if length ys = 2
                 then Inr (Expr ''|'' [Expr ''&'' [p, Expr ''~'' [q]], Expr ''&'' [Expr ''~'' [p], q]])
                 else Inl AssertionError)
              else if op \<in> {''&'', ''|'', ''~''} then Inr (Expr op ys)
              else Inl AssertionError)"
      using cond ys(1) by simp
    consider (c_neg) "op = ''~''" | (c_or) "op = ''|''" | (c_and) "op = ''&''"
      | (c_bin) "op = ''>>'' \<or> op = ''==>'' \<or> op = ''<<'' \<or> op = ''<=='' \<or> op = ''<=>'' \<or> op = ''^''"
      using ops by blast
    then show ?thesis
    proof cases
      case c_neg
      with "2.prems" have "length args = Suc 0" by simp
      from length_1E [OF this] obtain a where a: "args = [a]" by blast
      with ys(2) obtain y where y: "ys = [y]" "basic y" "same_meaning a y"
        by (auto simp: list_all2_Cons1)
      have "eliminate_implications (Expr op args) = Inr (Expr ''~'' [y])"
        unfolding el by (simp add: c_neg y)
      moreover have "basic (Expr ''~'' [y])" using y by simp
      moreover have "same_meaning (Expr op args) (Expr ''~'' [y])"
        using y(3) by (simp add: same_meaning_def c_neg a)
      ultimately show ?thesis by blast
    next
      case c_or
      have "eliminate_implications (Expr op args) = Inr (Expr ''|'' ys)"
        unfolding el by (simp add: c_or)
      moreover have "basic (Expr ''|'' ys)" using R(1,5) args(1) by auto
      moreover have "same_meaning (Expr op args) (Expr ''|'' ys)"
        using R(2) R(4) by (simp add: same_meaning_def c_or)
      ultimately show ?thesis by blast
    next
      case c_and
      have "eliminate_implications (Expr op args) = Inr (Expr ''&'' ys)"
        unfolding el by (simp add: c_and)
      moreover have "basic (Expr ''&'' ys)" using R(1,5) args(1) by auto
      moreover have "same_meaning (Expr op args) (Expr ''&'' ys)"
        using R(2) R(3) by (simp add: same_meaning_def c_and)
      ultimately show ?thesis by blast
    next
      case c_bin
      with "2.prems" have "length args = 2" by (elim disjE) simp_all
      from length_2E [OF this] obtain p q where pq: "args = [p, q]" by blast
      with ys(2) obtain p' q' where y: "ys = [p', q']" "basic p'" "same_meaning p p'"
        "basic q'" "same_meaning q q'"
        by (auto simp: list_all2_Cons1)
      from c_bin show ?thesis
        unfolding el using y(2-5)
        by (elim disjE) (auto simp: y(1) pq same_meaning_def)
    qed
  qed
qed

lemma collect_nnf:
  assumes "op = ''|'' \<or> op = ''&''"
  shows "list_all nnf xs \<Longrightarrow>
    \<exists>ys. collect op xs = Inr ys \<and> list_all nnf ys \<and> (xs \<noteq> [] \<longrightarrow> ys \<noteq> []) \<and>
      \<Union> (set (map prop_symbols ys)) = \<Union> (set (map prop_symbols xs)) \<and>
      (\<forall>m. (op = ''|'' \<longrightarrow> list_ex (holds m) ys = list_ex (holds m) xs) \<and>
           (op = ''&'' \<longrightarrow> list_all (holds m) ys = list_all (holds m) xs))"
  using assms
proof (induction op xs rule: collect.induct)
  case (1 op)
  show ?case by simp
next
  case (2 op b rest)
  then show ?case by simp
next
  case (3 op aop aargs rest)
  from "3.prems" have rest: "list_all nnf rest" and a: "nnf (Expr aop aargs)" by simp_all
  show ?case
  proof (cases "aop = op")
    case True
    with a "3.prems"(2) have aa: "aargs \<noteq> []" "list_all nnf aargs" by auto
    from "3.IH"(1) [OF True aa(2) "3.prems"(2)] obtain xs1 where
      x: "collect op aargs = Inr xs1" "list_all nnf xs1" "xs1 \<noteq> []"
        "\<Union> (set (map prop_symbols xs1)) = \<Union> (set (map prop_symbols aargs))"
        "\<forall>m. (op = ''|'' \<longrightarrow> list_ex (holds m) xs1 = list_ex (holds m) aargs) \<and>
           (op = ''&'' \<longrightarrow> list_all (holds m) xs1 = list_all (holds m) aargs)"
      using aa(1) by blast
    from "3.IH"(2) [OF True x(1) rest "3.prems"(2)] obtain ys1 where
      y: "collect op rest = Inr ys1" "list_all nnf ys1"
        "\<Union> (set (map prop_symbols ys1)) = \<Union> (set (map prop_symbols rest))"
        "\<forall>m. (op = ''|'' \<longrightarrow> list_ex (holds m) ys1 = list_ex (holds m) rest) \<and>
           (op = ''&'' \<longrightarrow> list_all (holds m) ys1 = list_all (holds m) rest)"
      by blast
    have "collect op (Expr aop aargs # rest) = Inr (xs1 @ ys1)"
      using True x(1) y(1) by simp
    moreover have "list_all nnf (xs1 @ ys1)" using x(2) y(2) by simp
    moreover have "xs1 @ ys1 \<noteq> []" using x(3) by simp
    moreover have "\<Union> (set (map prop_symbols (xs1 @ ys1)))
        = \<Union> (set (map prop_symbols (Expr aop aargs # rest)))"
      using x(4) y(3) True "3.prems"(2) by auto
    moreover have "(op = ''|'' \<longrightarrow> list_ex (holds m) (xs1 @ ys1) = list_ex (holds m) (Expr aop aargs # rest)) \<and>
           (op = ''&'' \<longrightarrow> list_all (holds m) (xs1 @ ys1) = list_all (holds m) (Expr aop aargs # rest))"
      for m
      using x(5) y(4) True by auto
    ultimately show ?thesis by blast
  next
    case False
    from "3.IH"(3) [OF False rest "3.prems"(2)] obtain ys1 where
      y: "collect op rest = Inr ys1" "list_all nnf ys1"
        "\<Union> (set (map prop_symbols ys1)) = \<Union> (set (map prop_symbols rest))"
        "\<forall>m. (op = ''|'' \<longrightarrow> list_ex (holds m) ys1 = list_ex (holds m) rest) \<and>
           (op = ''&'' \<longrightarrow> list_all (holds m) ys1 = list_all (holds m) rest)"
      by blast
    have "collect op (Expr aop aargs # rest) = Inr (Expr aop aargs # ys1)"
      using False y(1) by simp
    moreover have "list_all nnf (Expr aop aargs # ys1)" using a y(2) by simp
    moreover have "\<Union> (set (map prop_symbols (Expr aop aargs # ys1)))
        = \<Union> (set (map prop_symbols (Expr aop aargs # rest)))"
      using y(3) by simp
    moreover have "(op = ''|'' \<longrightarrow> list_ex (holds m) (Expr aop aargs # ys1) = list_ex (holds m) (Expr aop aargs # rest)) \<and>
           (op = ''&'' \<longrightarrow> list_all (holds m) (Expr aop aargs # ys1) = list_all (holds m) (Expr aop aargs # rest))"
      for m
      using y(4) by simp
    ultimately show ?thesis by blast
  qed
qed

lemma nnf_not_Const: "nnf x \<Longrightarrow> \<exists>op args. x = Expr op args"
  by (cases x) auto

lemma associate_nnf:
  assumes op: "op = ''|'' \<or> op = ''&''" and xs: "xs \<noteq> []" "list_all nnf xs"
  shows "\<exists>r. associate op xs = Inr r \<and> nnf r \<and>
      prop_symbols r \<subseteq> \<Union> (set (map prop_symbols xs)) \<and>
      (\<forall>m. (op = ''|'' \<longrightarrow> holds m r = list_ex (holds m) xs) \<and>
           (op = ''&'' \<longrightarrow> holds m r = list_all (holds m) xs))"
proof -
  from collect_nnf [OF op xs(2)] xs(1) obtain ys where
    y: "collect op xs = Inr ys" "list_all nnf ys" "ys \<noteq> []"
       "\<Union> (set (map prop_symbols ys)) = \<Union> (set (map prop_symbols xs))"
       "\<forall>m. (op = ''|'' \<longrightarrow> list_ex (holds m) ys = list_ex (holds m) xs) \<and>
           (op = ''&'' \<longrightarrow> list_all (holds m) ys = list_all (holds m) xs)"
    by blast
  show ?thesis
  proof (cases ys)
    case Nil
    with y(3) show ?thesis by simp
  next
    case (Cons a as)
    show ?thesis
    proof (cases as)
      case Nil
      with Cons have ys: "ys = [a]" by simp
      have "associate op xs = Inr a" by (simp add: associate_def dissociate_def y(1) ys)
      moreover have "nnf a" using y(2) ys by simp
      moreover have "prop_symbols a \<subseteq> \<Union> (set (map prop_symbols xs))"
        using y(4) ys by auto
      moreover have "(op = ''|'' \<longrightarrow> holds m a = list_ex (holds m) xs) \<and>
           (op = ''&'' \<longrightarrow> holds m a = list_all (holds m) xs)" for m
        using y(5) ys by auto
      ultimately show ?thesis by blast
    next
      case (Cons b bs)
      with \<open>ys = a # as\<close> have ys: "ys = a # b # bs" by simp
      have "associate op xs = Inr (Expr op ys)"
        by (simp add: associate_def dissociate_def y(1) ys)
      moreover have "nnf (Expr op ys)" using y(2,3) op by auto
      moreover have "prop_symbols (Expr op ys) \<subseteq> \<Union> (set (map prop_symbols xs))"
        using y(4) op by auto
      moreover have "(op = ''|'' \<longrightarrow> holds m (Expr op ys) = list_ex (holds m) xs) \<and>
           (op = ''&'' \<longrightarrow> holds m (Expr op ys) = list_all (holds m) xs)" for m
        using y(5) by auto
      ultimately show ?thesis by blast
    qed
  qed
qed

declare move_not_inwards.simps(2) [simp del]

lemma move_not_inwards_simps:
  "move_not_inwards (Expr ''~'' (Expr ''~'' (b # bs) # as)) = move_not_inwards b"
  "move_not_inwards (Expr ''~'' (Expr ''&'' aargs # as)) =
     (case list_results (map (\<lambda>b. move_not_inwards (Expr ''~'' [b])) aargs) of
        Inl e \<Rightarrow> Inl e | Inr xs \<Rightarrow> associate ''|'' xs)"
  "move_not_inwards (Expr ''~'' (Expr ''|'' aargs # as)) =
     (case list_results (map (\<lambda>b. move_not_inwards (Expr ''~'' [b])) aargs) of
        Inl e \<Rightarrow> Inl e | Inr xs \<Rightarrow> associate ''&'' xs)"
  "args \<noteq> [] \<Longrightarrow> move_not_inwards (Expr ''&'' args) =
     (case list_results (map move_not_inwards args) of Inl e \<Rightarrow> Inl e | Inr xs \<Rightarrow> Inr (Expr ''&'' xs))"
  "args \<noteq> [] \<Longrightarrow> move_not_inwards (Expr ''|'' args) =
     (case list_results (map move_not_inwards args) of Inl e \<Rightarrow> Inl e | Inr xs \<Rightarrow> Inr (Expr ''|'' xs))"
  by (simp_all add: move_not_inwards.simps(2))

lemma move_not_inwards_atom:
  assumes "is_prop_symbol aop"
  shows "move_not_inwards (Expr ''~'' (Expr aop aargs # as)) = Inr (Expr ''~'' (Expr aop aargs # as))"
    and "move_not_inwards (Expr aop aargs) = Inr (Expr aop aargs)"
proof -
  from assms have "aop \<noteq> ''~''" "aop \<noteq> ''&''" "aop \<noteq> ''|''" by auto
  then show "move_not_inwards (Expr ''~'' (Expr aop aargs # as)) = Inr (Expr ''~'' (Expr aop aargs # as))"
    by (simp add: move_not_inwards.simps(2))
  from assms \<open>aop \<noteq> ''~''\<close> show "move_not_inwards (Expr aop aargs) = Inr (Expr aop aargs)"
    by (simp add: move_not_inwards.simps(2) is_prop_symbol_is_symbol)
qed

lemma basic_not_Const: "basic x \<Longrightarrow> \<exists>op args. x = Expr op args"
  by (cases x) auto

lemma list_ex_not: "list_ex (\<lambda>x. \<not> P x) xs = (\<not> list_all P xs)"
  by (simp add: list_ex_iff list_all_iff)

lemma list_all_not: "list_all (\<lambda>x. \<not> P x) xs = (\<not> list_ex P xs)"
  by (simp add: list_ex_iff list_all_iff)


lemma move_not_inwards_ok:
  "basic s \<Longrightarrow> \<exists>t. move_not_inwards s = Inr t \<and> nnf t \<and> same_meaning s t"
proof (induction s rule: move_not_inwards.induct)
  case (1 b)
  then show ?case by simp
next
  case (2 op args)
  show ?case
  proof (cases "is_prop_symbol op")
    case True
    with "2.prems" show ?thesis by (simp add: move_not_inwards_atom(2))
  next
    case np: False
    from basic_ops [OF "2.prems" np]
    consider (c_neg) "op = ''~''" | (c_jn) "op = ''|'' \<or> op = ''&''" by blast
    then show ?thesis
    proof cases
      case c_neg
      with "2.prems" have "length args = Suc 0" by simp
      from length_1E [OF this] obtain a where a: "args = [a]" by blast
      with "2.prems" c_neg have ba: "basic a" by simp
      from basic_not_Const [OF ba] obtain aop aargs where ae: "a = Expr aop aargs" by blast
      show ?thesis
      proof (cases "is_prop_symbol aop")
        case True
        with ba ae have "aargs = []" by simp
        with True show ?thesis
          by (simp add: c_neg a ae move_not_inwards_atom(1))
      next
        case nap: False
        from basic_ops [OF ba [unfolded ae] nap]
        consider (a_neg) "aop = ''~''" | (a_and) "aop = ''&''" | (a_or) "aop = ''|''" by blast
        then show ?thesis
        proof cases
          case a_neg
          with ba ae have "length aargs = Suc 0" by simp
          from length_1E [OF this] obtain b where b: "aargs = [b]" by blast
          with ba ae a_neg have bb: "basic b" by simp
          from "2.IH"(1) [OF c_neg a ae a_neg b bb] obtain t where
            t: "move_not_inwards b = Inr t" "nnf t" "same_meaning b t" by blast
          have "move_not_inwards (Expr op args) = Inr t"
            by (simp add: c_neg a ae a_neg b move_not_inwards_simps(1) t(1))
          moreover have "same_meaning (Expr op args) t"
            using t(3) by (simp add: same_meaning_def c_neg a ae a_neg b)
          ultimately show ?thesis using t(2) by blast
        next
          case a_and
          with ba ae have aa: "aargs \<noteq> []" "list_all basic aargs" by simp_all
          have "\<exists>ys. list_results (map (\<lambda>b. move_not_inwards (Expr ''~'' [b])) aargs) = Inr ys \<and>
              list_all2 (\<lambda>x y. nnf y \<and> same_meaning (Expr ''~'' [x]) y) aargs ys"
          proof (rule list_results_ex)
            fix x assume x: "x \<in> set aargs"
            then have "basic (Expr ''~'' [x])" using aa(2) by (simp add: list_all_iff)
            from "2.IH"(2) [OF c_neg a ae _ a_and x this] a_and
            show "\<exists>y. move_not_inwards (Expr ''~'' [x]) = Inr y \<and> nnf y \<and> same_meaning (Expr ''~'' [x]) y"
              by simp
          qed
          then obtain ys where ys: "list_results (map (\<lambda>b. move_not_inwards (Expr ''~'' [b])) aargs) = Inr ys"
            "list_all2 (\<lambda>x y. nnf y \<and> same_meaning (Expr ''~'' [x]) y) aargs ys" by blast
          note R = list_all2_same_meaning [where F = "\<lambda>x. Expr ''~'' [x]" and Q = nnf, OF ys(2)]
          have yne: "ys \<noteq> []" using R(5) aa(1) by auto
          from associate_nnf [of "''|''" ys] yne R(1) obtain r where
            r: "associate ''|'' ys = Inr r" "nnf r"
               "prop_symbols r \<subseteq> \<Union> (set (map prop_symbols ys))"
               "\<forall>m. holds m r = list_ex (holds m) ys"
            by auto
          have "move_not_inwards (Expr op args) = Inr r"
            by (simp add: c_neg a ae a_and move_not_inwards_simps(2) ys(1) r(1))
          moreover have "same_meaning (Expr op args) r"
            unfolding same_meaning_def
          proof (intro conjI allI)
            show "prop_symbols r \<subseteq> prop_symbols (Expr op args)"
              using r(3) R(2) by (auto simp: c_neg a ae a_and)
            fix m
            show "holds m r = holds m (Expr op args)"
              using r(4) R(4) [of m] by (simp add: c_neg a ae a_and list_ex_not)
          qed
          ultimately show ?thesis using r(2) by blast
        next
          case a_or
          with ba ae have aa: "aargs \<noteq> []" "list_all basic aargs" by simp_all
          have "\<exists>ys. list_results (map (\<lambda>b. move_not_inwards (Expr ''~'' [b])) aargs) = Inr ys \<and>
              list_all2 (\<lambda>x y. nnf y \<and> same_meaning (Expr ''~'' [x]) y) aargs ys"
          proof (rule list_results_ex)
            fix x assume x: "x \<in> set aargs"
            then have "basic (Expr ''~'' [x])" using aa(2) by (simp add: list_all_iff)
            from "2.IH"(3) [OF c_neg a ae _ _ a_or x this] a_or
            show "\<exists>y. move_not_inwards (Expr ''~'' [x]) = Inr y \<and> nnf y \<and> same_meaning (Expr ''~'' [x]) y"
              by simp
          qed
          then obtain ys where ys: "list_results (map (\<lambda>b. move_not_inwards (Expr ''~'' [b])) aargs) = Inr ys"
            "list_all2 (\<lambda>x y. nnf y \<and> same_meaning (Expr ''~'' [x]) y) aargs ys" by blast
          note R = list_all2_same_meaning [where F = "\<lambda>x. Expr ''~'' [x]" and Q = nnf, OF ys(2)]
          have yne: "ys \<noteq> []" using R(5) aa(1) by auto
          from associate_nnf [of "''&''" ys] yne R(1) obtain r where
            r: "associate ''&'' ys = Inr r" "nnf r"
               "prop_symbols r \<subseteq> \<Union> (set (map prop_symbols ys))"
               "\<forall>m. holds m r = list_all (holds m) ys"
            by auto
          have "move_not_inwards (Expr op args) = Inr r"
            by (simp add: c_neg a ae a_or move_not_inwards_simps(3) ys(1) r(1))
          moreover have "same_meaning (Expr op args) r"
            unfolding same_meaning_def
          proof (intro conjI allI)
            show "prop_symbols r \<subseteq> prop_symbols (Expr op args)"
              using r(3) R(2) by (auto simp: c_neg a ae a_or)
            fix m
            show "holds m r = holds m (Expr op args)"
              using r(4) R(3) [of m] by (simp add: c_neg a ae a_or list_all_not)
          qed
          ultimately show ?thesis using r(2) by blast
        qed
      qed
    next
      case c_jn
      with "2.prems" have aa: "args \<noteq> []" "list_all basic args" by auto
      have nn: "op \<noteq> ''~''" using c_jn by auto
      have cond: "\<not> (is_symbol op \<or> args = [])" using c_jn aa(1) by auto
      have "\<exists>ys. list_results (map move_not_inwards args) = Inr ys \<and>
              list_all2 (\<lambda>x y. nnf y \<and> same_meaning x y) args ys"
        using "2.IH"(4) [OF nn cond] aa(2) by (intro list_results_ex) (auto simp: list_all_iff)
      then obtain ys where ys: "list_results (map move_not_inwards args) = Inr ys"
        "list_all2 (\<lambda>x y. nnf y \<and> same_meaning x y) args ys" by blast
      note R = list_all2_same_meaning [where F = "\<lambda>x. x" and Q = nnf, OF ys(2)]
      have yne: "ys \<noteq> []" using R(5) aa(1) by auto
      have "move_not_inwards (Expr op args) = Inr (Expr op ys)"
        using c_jn aa(1) ys(1) by (auto simp: move_not_inwards_simps)
      moreover have "nnf (Expr op ys)" using c_jn yne R(1) by auto
      moreover have "prop_symbols (Expr op ys) \<subseteq> prop_symbols (Expr op args)"
        using c_jn R(2) by (elim disjE) simp_all
      moreover have "holds m (Expr op ys) = holds m (Expr op args)" for m
        using c_jn R(3) [of m] R(4) [of m] by (elim disjE) simp_all
      then have "same_meaning (Expr op args) (Expr op ys)"
        using calculation(3) by (simp add: same_meaning_def)
      ultimately show ?thesis by blast
    qed
  qed
qed

declare distribute_and_over_or.simps(2) [simp del]

lemma distribute_and_over_or_and:
  "distribute_and_over_or (Expr ''&'' args) =
     (case list_results (map distribute_and_over_or args) of
        Inl e \<Rightarrow> Inl e | Inr xs \<Rightarrow> associate ''&'' xs)"
  by (subst distribute_and_over_or.simps(2)) simp

lemma distribute_and_over_or_other:
  "op \<noteq> ''|'' \<Longrightarrow> op \<noteq> ''&'' \<Longrightarrow> distribute_and_over_or (Expr op args) = Inr (Expr op args)"
  by (subst distribute_and_over_or.simps(2)) simp

lemma distribute_and_over_or_single:
  "associate ''|'' args = Inr (Expr op' args') \<Longrightarrow> op' \<noteq> ''|'' \<Longrightarrow>
   distribute_and_over_or (Expr ''|'' args) = distribute_and_over_or (Expr op' args')"
  by (subst distribute_and_over_or.simps(2)) simp

lemma distribute_and_over_or_clause:
  assumes "associate ''|'' args = Inr (Expr ''|'' args')" and "2 \<le> length args'"
    and "first_conj args' = Inr None"
  shows "distribute_and_over_or (Expr ''|'' args) = Inr (Expr ''|'' args')"
proof -
  from assms(2) have "length args' \<noteq> 0" "length args' \<noteq> 1" by auto
  with assms(1,3) show ?thesis
    by (subst distribute_and_over_or.simps(2)) simp
qed

lemma distribute_and_over_or_conj:
  assumes "associate ''|'' args = Inr (Expr ''|'' args')" and "2 \<le> length args'"
    and "first_conj args' = Inr (Some cj)" and "associate ''|'' (remove1 cj args') = Inr rest"
  shows "distribute_and_over_or (Expr ''|'' args) =
     (case list_results (map (\<lambda>c. distribute_and_over_or (Expr ''|'' [c, rest])) (args_of cj)) of
        Inl e \<Rightarrow> Inl e | Inr xs \<Rightarrow> associate ''&'' xs)"
proof -
  from assms(2) have "length args' \<noteq> 0" "length args' \<noteq> 1" by auto
  with assms(1,3,4) show ?thesis
    by (subst distribute_and_over_or.simps(2)) simp
qed

lemma atom_literal: "atom x \<Longrightarrow> literal x"
  by (cases x) auto

lemma literal_nnf: "literal x \<Longrightarrow> nnf x"
  by (cases x) (auto split: list.splits)

lemma literal_op: "literal (Expr op args) \<Longrightarrow> op \<noteq> ''|'' \<and> op \<noteq> ''&''"
  by auto

lemma clause_nnf: "clause x \<Longrightarrow> nnf x"
proof (cases x)
  case (Const b)
  assume "clause x"
  with Const show ?thesis by simp
next
  case (Expr op args)
  assume "clause x"
  with Expr consider "literal (Expr op args)"
    | "op = ''|''" "2 \<le> length args" "list_all literal args" by auto
  then show ?thesis
  proof cases
    case 1
    then show ?thesis unfolding Expr by (rule literal_nnf)
  next
    case 2
    then have "args \<noteq> []" "list_all nnf args" by (auto simp: list_all_iff literal_nnf)
    with 2(1) show ?thesis unfolding Expr by simp
  qed
qed

lemma clause_op: "clause (Expr op args) \<Longrightarrow> op \<noteq> ''&''"
  by auto

lemma cnf_nnf: "cnf x \<Longrightarrow> nnf x"
proof (cases x)
  case (Const b)
  assume "cnf x"
  with Const show ?thesis by simp
next
  case (Expr op args)
  assume "cnf x"
  with Expr consider "clause (Expr op args)"
    | "op = ''&''" "2 \<le> length args" "list_all clause args" by auto
  then show ?thesis
  proof cases
    case 1
    then show ?thesis unfolding Expr by (rule clause_nnf)
  next
    case 2
    then have "args \<noteq> []" "list_all nnf args" by (auto simp: list_all_iff clause_nnf)
    with 2(1) show ?thesis unfolding Expr by simp
  qed
qed

lemma clause_cnf: "clause x \<Longrightarrow> cnf x"
  by (cases x) auto

lemma nnf_literal:
  assumes "nnf (Expr op args)" and "op \<noteq> ''|''" and "op \<noteq> ''&''"
  shows "literal (Expr op args)"
proof (cases "is_prop_symbol op")
  case True
  with assms(1) show ?thesis by simp
next
  case False
  from nnf_ops [OF assms(1) False] assms(2,3) have "op = ''~''" by simp
  with assms(1) show ?thesis by (auto split: list.splits)
qed

lemma first_conj_nnf:
  "list_all nnf xs \<Longrightarrow>
   (first_conj xs = Inr None \<and> (\<forall>x\<in>set xs. \<forall>cs. x \<noteq> Expr ''&'' cs)) \<or>
   (\<exists>cs. first_conj xs = Inr (Some (Expr ''&'' cs)) \<and> Expr ''&'' cs \<in> set xs)"
  by (induction xs rule: first_conj.induct) auto

lemma list_ex_remove1: "x \<in> set xs \<Longrightarrow> list_ex P xs = (P x \<or> list_ex P (remove1 x xs))"
  by (induction xs) auto

lemma collect_clauses:
  "list_all cnf xs \<Longrightarrow> collect ''&'' xs = Inr ys \<Longrightarrow> list_all clause ys"
proof (induction "''&''" xs arbitrary: ys rule: collect.induct)
  case 1
  then show ?case by simp
next
  case (2 b rest)
  then show ?case by simp
next
  case (3 aop aargs rest)
  show ?case
  proof (cases "aop = ''&''")
    case True
    with "3.prems"(1) have aa: "list_all clause aargs" and rest: "list_all cnf rest"
      by auto
    from "3.prems"(2) True obtain xs1 ys1 where
      c: "collect ''&'' aargs = Inr xs1" "collect ''&'' rest = Inr ys1" "ys = xs1 @ ys1"
      by (auto split: sum.splits)
    have "list_all cnf aargs" using aa by (auto simp: list_all_iff clause_cnf)
    from "3.hyps"(1) [OF True this c(1)] "3.hyps"(2) [OF True c(1) rest c(2)] c(3)
    show ?thesis by simp
  next
    case False
    with "3.prems"(1) have a: "clause (Expr aop aargs)" and rest: "list_all cnf rest"
      by auto
    from "3.prems"(2) False obtain ys1 where
      c: "collect ''&'' rest = Inr ys1" "ys = Expr aop aargs # ys1"
      by (auto split: sum.splits)
    from "3.hyps"(3) [OF False rest c(1)] a c(2) show ?thesis by simp
  qed
qed

lemma associate_cnf:
  assumes "ys \<noteq> []" and "list_all cnf ys"
  shows "\<exists>r. associate ''&'' ys = Inr r \<and> cnf r \<and>
      prop_symbols r \<subseteq> \<Union> (set (map prop_symbols ys)) \<and> (\<forall>m. holds m r = list_all (holds m) ys)"
proof -
  have n: "list_all nnf ys" using assms(2) by (auto simp: list_all_iff cnf_nnf)
  from associate_nnf [of "''&''" ys] assms(1) n obtain r where
    r: "associate ''&'' ys = Inr r" "prop_symbols r \<subseteq> \<Union> (set (map prop_symbols ys))"
       "\<forall>m. holds m r = list_all (holds m) ys"
    by auto
  from r(1) obtain zs where zs: "collect ''&'' ys = Inr zs"
    by (auto simp: associate_def dissociate_def split: sum.splits)
  from collect_clauses [OF assms(2) zs] have cl: "list_all clause zs" .
  have "cnf r"
  proof (cases zs)
    case Nil
    with r(1) zs have "r = Const True"
      by (simp add: associate_def dissociate_def op_identity_def)
    with collect_nnf [of "''&''" ys] n assms(1) zs Nil show ?thesis by auto
  next
    case (Cons a as)
    show ?thesis
    proof (cases as)
      case Nil
      with Cons r(1) zs cl show ?thesis
        by (auto simp: associate_def dissociate_def clause_cnf)
    next
      case (Cons b bs)
      with \<open>zs = a # as\<close> r(1) zs have "r = Expr ''&'' zs"
        by (auto simp: associate_def dissociate_def)
      moreover have "2 \<le> length zs" using Cons \<open>zs = a # as\<close> by simp
      ultimately show ?thesis using cl by simp
    qed
  qed
  with r show ?thesis by blast
qed

lemma list_all_or_const: "list_all (\<lambda>c. P c \<or> Q) cs = (list_all P cs \<or> Q)"
  by (induction cs) auto

lemma prop_symbols_remove1:
  "\<Union> (set (map prop_symbols (remove1 x xs))) \<subseteq> \<Union> (set (map prop_symbols xs))"
  using set_remove1_subset [of x xs] by auto

lemma distribute_and_over_or_ok:
  "nnf s \<Longrightarrow> \<exists>c. distribute_and_over_or s = Inr c \<and> cnf c \<and> same_meaning s c"
proof (induction s rule: distribute_and_over_or.induct)
  case (1 b)
  then show ?case by simp
next
  case (2 op args)
  note n = "2.prems"
  consider (c_lit) "op \<noteq> ''|''" "op \<noteq> ''&''" | (c_and) "op = ''&''" | (c_or) "op = ''|''"
    by blast
  then show ?case
  proof cases
    case c_lit
    from nnf_literal [OF n c_lit] have "cnf (Expr op args)" by simp
    with c_lit show ?thesis by (auto simp: distribute_and_over_or_other)
  next
    case c_and
    with n have aa: "args \<noteq> []" "list_all nnf args" by auto
    have no: "op \<noteq> ''|''" using c_and by simp
    have "\<exists>ys. list_results (map distribute_and_over_or args) = Inr ys \<and>
              list_all2 (\<lambda>x y. cnf y \<and> same_meaning x y) args ys"
      using "2.IH"(4) [OF no c_and] aa(2) by (intro list_results_ex) (auto simp: list_all_iff)
    then obtain ys where ys: "list_results (map distribute_and_over_or args) = Inr ys"
      "list_all2 (\<lambda>x y. cnf y \<and> same_meaning x y) args ys" by blast
    note R = list_all2_same_meaning [where F = "\<lambda>x. x" and Q = cnf, OF ys(2)]
    have yne: "ys \<noteq> []" using R(5) aa(1) by auto
    from associate_cnf [OF yne R(1)] obtain r where
      r: "associate ''&'' ys = Inr r" "cnf r"
         "prop_symbols r \<subseteq> \<Union> (set (map prop_symbols ys))"
         "\<forall>m. holds m r = list_all (holds m) ys" by blast
    have "distribute_and_over_or (Expr op args) = Inr r"
      by (simp add: c_and distribute_and_over_or_and ys(1) r(1))
    moreover have "prop_symbols r \<subseteq> prop_symbols (Expr op args)"
      using r(3) R(2) by (simp add: c_and)
    moreover have "holds m r = holds m (Expr op args)" for m
      using r(4) R(3) [of m] by (simp add: c_and)
    ultimately show ?thesis using r(2) by (auto simp: same_meaning_def)
  next
    case c_or
    with n have aa: "args \<noteq> []" "list_all nnf args" by auto
    from associate_nnf [of "''|''" args] aa obtain r0 where
      r0: "associate ''|'' args = Inr r0" "nnf r0"
          "prop_symbols r0 \<subseteq> \<Union> (set (map prop_symbols args))"
          "\<forall>m. holds m r0 = list_ex (holds m) args" by auto
    have sm0: "same_meaning (Expr op args) r0"
      using r0(3,4) by (simp add: same_meaning_def c_or)
    from nnf_not_Const [OF r0(2)] obtain op' args' where re: "r0 = Expr op' args'" by blast
    show ?thesis
    proof (cases "op' = ''|''")
      case False
      from "2.IH"(1) [OF c_or r0(1) re False] r0(2) re obtain c where
        c: "distribute_and_over_or (Expr op' args') = Inr c" "cnf c" "same_meaning r0 c" by auto
      have "distribute_and_over_or (Expr op args) = Inr c"
        using distribute_and_over_or_single [OF r0(1) [unfolded re] False] c(1) c_or by simp
      with c(2) same_meaning_trans [OF sm0 c(3)] show ?thesis by blast
    next
      case True
      note assoc = r0(1) [unfolded re True]
      from associate_same [OF assoc] have d: "collect ''|'' args = Inr args'" and len: "2 \<le> length args'"
        by (simp_all add: dissociate_def)
      from r0(2) re True have na: "list_all nnf args'" by simp
      from first_conj_nnf [OF na]
      consider (none) "first_conj args' = Inr None" "\<forall>x\<in>set args'. \<forall>cs. x \<noteq> Expr ''&'' cs"
        | (some) cs where "first_conj args' = Inr (Some (Expr ''&'' cs))" "Expr ''&'' cs \<in> set args'"
        by blast
      then show ?thesis
      proof cases
        case none
        have "literal x" if x: "x \<in> set args'" for x
        proof -
          from collect_not_op [OF d x] obtain xop xargs where xe: "x = Expr xop xargs" "xop \<noteq> ''|''"
            by blast
          from none(2) x xe have "xop \<noteq> ''&''" by auto
          moreover from na x have "nnf x" by (simp add: list_all_iff)
          ultimately show ?thesis using xe nnf_literal by blast
        qed
        then have "cnf (Expr ''|'' args')" using len by (simp add: list_all_iff)
        moreover have "distribute_and_over_or (Expr op args) = Inr (Expr ''|'' args')"
          using distribute_and_over_or_clause [OF assoc len none(1)] c_or by simp
        ultimately show ?thesis using sm0 re True by blast
      next
        case some
        let ?cj = "Expr ''&'' cs"
        let ?others = "remove1 ?cj args'"
        from na some(2) have "nnf ?cj" unfolding list_all_iff by blast
        then have cs: "cs \<noteq> []" "list_all nnf cs" by simp_all
        have one: "?others \<noteq> []"
          using len some(2) by (cases args'; cases "tl args'") (auto split: if_splits)
        have non: "list_all nnf ?others"
          using na set_remove1_subset [of ?cj args'] by (auto simp: list_all_iff)
        from associate_nnf [of "''|''" ?others] one non obtain rest where
          rest: "associate ''|'' ?others = Inr rest" "nnf rest"
            "prop_symbols rest \<subseteq> \<Union> (set (map prop_symbols ?others))"
            "\<forall>m. holds m rest = list_ex (holds m) ?others" by auto
        have l0: "length args' \<noteq> 0" "length args' \<noteq> 1" "\<not> ''|'' \<noteq> ''|''" using len by auto
        have "\<exists>ys. list_results (map (\<lambda>c. distribute_and_over_or (Expr ''|'' [c, rest])) cs) = Inr ys \<and>
              list_all2 (\<lambda>x y. cnf y \<and> same_meaning (Expr ''|'' [x, rest]) y) cs ys"
        proof (rule list_results_ex)
          fix x assume x: "x \<in> set cs"
          then have nx: "nnf (Expr ''|'' [x, rest])" using cs(2) rest(2) by (simp add: list_all_iff)
          have xa: "x \<in> set (args_of ?cj)" using x by simp
          from "2.IH"(3) [OF c_or r0(1) re _ _ _ _ refl _ xa nx] True l0 some(1) rest(1)
          show "\<exists>y. distribute_and_over_or (Expr ''|'' [x, rest]) = Inr y \<and> cnf y \<and>
                   same_meaning (Expr ''|'' [x, rest]) y"
            by simp
        qed
        then obtain ys where
          ys: "list_results (map (\<lambda>c. distribute_and_over_or (Expr ''|'' [c, rest])) cs) = Inr ys"
            "list_all2 (\<lambda>x y. cnf y \<and> same_meaning (Expr ''|'' [x, rest]) y) cs ys" by blast
        note R = list_all2_same_meaning [where F = "\<lambda>x. Expr ''|'' [x, rest]" and Q = cnf, OF ys(2)]
        have yne: "ys \<noteq> []" using R(5) cs(1) by auto
        from associate_cnf [OF yne R(1)] obtain r where
          r: "associate ''&'' ys = Inr r" "cnf r"
             "prop_symbols r \<subseteq> \<Union> (set (map prop_symbols ys))"
             "\<forall>m. holds m r = list_all (holds m) ys" by blast
        have res: "distribute_and_over_or (Expr op args) = Inr r"
          using distribute_and_over_or_conj [OF assoc len some(1) rest(1)] ys(1) r(1) c_or
          by simp
        have "holds m r = holds m r0" for m
        proof -
          have "holds m r = (list_all (holds m) cs \<or> holds m rest)"
            using r(4) R(3) [of m] by (simp add: list_all_or_const)
          also have "\<dots> = (holds m ?cj \<or> list_ex (holds m) ?others)"
            using rest(4) by simp
          also have "\<dots> = list_ex (holds m) args'"
            using list_ex_remove1 [OF some(2), of "holds m"] by simp
          finally show ?thesis by (simp add: re True)
        qed
        moreover have "prop_symbols r \<subseteq> prop_symbols r0"
        proof
          fix p assume "p \<in> prop_symbols r"
          with r(3) have "p \<in> \<Union> (set (map prop_symbols ys))" by blast
          with R(2) have "p \<in> \<Union> (set (map (\<lambda>x. prop_symbols (Expr ''|'' [x, rest])) cs))"
            by blast
          then obtain x where x: "x \<in> set cs" "p \<in> prop_symbols (Expr ''|'' [x, rest])"
            unfolding set_map by blast
          then have "p \<in> prop_symbols x \<or> p \<in> prop_symbols rest" by simp
          then show "p \<in> prop_symbols r0"
          proof
            assume "p \<in> prop_symbols x"
            with x(1) have "p \<in> prop_symbols ?cj" by auto
            with some(2) have "\<exists>y\<in>set args'. p \<in> prop_symbols y" by blast
            then show ?thesis unfolding re True by simp
          next
            assume "p \<in> prop_symbols rest"
            with rest(3) prop_symbols_remove1 [of ?cj args']
            have "p \<in> \<Union> (set (map prop_symbols args'))" by blast
            then show ?thesis unfolding re True by simp
          qed
        qed
        ultimately have "same_meaning r0 r" by (simp add: same_meaning_def)
        with res r(2) same_meaning_trans [OF sm0] show ?thesis by blast
      qed
    qed
  qed
qed

lemma sentence_not_Const: "sentence s \<Longrightarrow> \<exists>op args. s = Expr op args"
  by (cases s) auto

lemma to_cnf_ok:
  assumes "sentence s"
  shows "\<exists>c. to_cnf s = Inr c \<and> cnf c \<and> same_meaning s c"
proof -
  from eliminate_implications_ok [OF assms] obtain s1 where
    s1: "eliminate_implications s = Inr s1" "basic s1" "same_meaning s s1" by blast
  from move_not_inwards_ok [OF s1(2)] obtain s2 where
    s2: "move_not_inwards s1 = Inr s2" "nnf s2" "same_meaning s1 s2" by blast
  from distribute_and_over_or_ok [OF s2(2)] obtain c where
    c: "distribute_and_over_or s2 = Inr c" "cnf c" "same_meaning s2 c" by blast
  have "to_cnf s = Inr c" by (simp add: to_cnf_def s1(1) s2(1) c(1))
  with c(2) same_meaning_trans [OF same_meaning_trans [OF s1(3) s2(3)] c(3)]
  show ?thesis by blast
qed

section \<open>Semantic equivalence of the conjunctive normal form\<close>

lemma sentence_arg:
  assumes "sentence (Expr op args)" and "a \<in> set args"
  shows "sentence a"
proof (cases "is_prop_symbol op")
  case True
  with assms show ?thesis by simp
next
  case False
  from sentence_ops [OF assms(1) False] assms show ?thesis
    by (elim disjE) (simp_all add: list_all_iff)
qed

lemma sentence_is_Expr: "sentence a \<Longrightarrow> is_Expr a"
  by (cases a) auto

lemma sentence_pl_sentence: "sentence s \<Longrightarrow> pl_sentence s"
proof (induction s rule: subexpressions.induct)
  case (1 b)
  then show ?case by simp
next
  case (2 op args)
  have ih: "list_all pl_sentence args"
    unfolding list_all_iff using "2.IH" sentence_arg [OF "2.prems"] by blast
  have ie: "list_all is_Expr args"
    unfolding list_all_iff using sentence_is_Expr sentence_arg [OF "2.prems"] by blast
  show ?case
  proof (cases "is_prop_symbol op")
    case True
    with "2.prems" show ?thesis by simp
  next
    case False
    from sentence_ops [OF "2.prems" False] "2.prems" ih ie show ?thesis
      by (elim disjE) simp_all
  qed
qed

lemma nnf_basic: "nnf s \<Longrightarrow> basic s"
proof (induction s rule: subexpressions.induct)
  case (1 b)
  then show ?case by simp
next
  case (2 op args)
  show ?case
  proof (cases "is_prop_symbol op")
    case True
    with "2.prems" show ?thesis by simp
  next
    case False
    from nnf_ops [OF "2.prems" False]
    consider (c_neg) "op = ''~''" | (c_jn) "op = ''|'' \<or> op = ''&''" by blast
    then show ?thesis
    proof cases
      case c_neg
      with "2.prems" obtain a where "args = [a]" "atom a"
        by (auto split: list.splits)
      then show ?thesis unfolding c_neg by (cases a) auto
    next
      case c_jn
      with "2.prems" have "args \<noteq> []" "list_all nnf args" by auto
      with "2.IH" have "list_all basic args" by (auto simp: list_all_iff)
      with c_jn \<open>args \<noteq> []\<close> show ?thesis by auto
    qed
  qed
qed

lemma basic_sentence: "basic s \<Longrightarrow> sentence s"
proof (induction s rule: subexpressions.induct)
  case (1 b)
  then show ?case by simp
next
  case (2 op args)
  show ?case
  proof (cases "is_prop_symbol op")
    case True
    with "2.prems" show ?thesis by simp
  next
    case False
    have "list_all basic args"
      using basic_ops [OF "2.prems" False] "2.prems" by (elim disjE) simp_all
    with "2.IH" have "list_all sentence args" by (auto simp: list_all_iff)
    with basic_ops [OF "2.prems" False] "2.prems" show ?thesis
      by (elim disjE) simp_all
  qed
qed

lemma to_cnf_pl_true:
  assumes "sentence s" and "prop_symbols s \<subseteq> dom m"
  shows "\<exists>c. to_cnf s = Inr c \<and> cnf c \<and> pl_true c m = Inr (Some (holds m s)) \<and>
             pl_true s m = Inr (Some (holds m s))"
proof -
  from to_cnf_ok [OF assms(1)] obtain c where
    c: "to_cnf s = Inr c" "cnf c" "same_meaning s c" by blast
  have "pl_sentence c"
    using c(2) by (intro sentence_pl_sentence basic_sentence nnf_basic cnf_nnf)
  moreover have "prop_symbols c \<subseteq> dom m" using c(3) assms(2) by (auto simp: same_meaning_def)
  ultimately have "pl_true c m = Inr (Some (holds m c))" by (rule pl_true_holds)
  moreover have "holds m c = holds m s" using c(3) by (simp add: same_meaning_def)
  moreover have "pl_true s m = Inr (Some (holds m s))"
    using assms by (intro pl_true_holds sentence_pl_sentence)
  ultimately show ?thesis using c(1,2) by simp
qed

text \<open>
  The claim C1 as stated includes boolean constants. On them the normalizer faults: every
  stage reads \<open>op\<close> or \<open>args\<close> of its argument, which a Python boolean does not have, while
  the evaluator gives the sentence a truth value. The same happens on a disjunction without
  arguments, which \<open>associate\<close> turns into the boolean \<open>False\<close>.
\<close>

theorem to_cnf_boolean_constant_faults:
  "to_cnf (Expr ''&'' [Expr ''P'' [], Const True]) = Inl AttributeError \<and>
   to_cnf (Const True) = Inl AttributeError \<and>
   pl_true (Expr ''&'' [Expr ''P'' [], Const True]) [Expr ''P'' [] \<mapsto> True] = Inr (Some True) \<and>
   to_cnf (Expr ''|'' []) = Inl AttributeError \<and>
   pl_true (Expr ''|'' []) [Expr ''P'' [] \<mapsto> True] = Inr (Some False)"
proof -
  have "to_cnf (Expr ''|'' []) = Inl AttributeError" by code_simp
  then show ?thesis by (simp add: to_cnf_def pl_true_and pl_true_or pl_true_symbol)
qed

text \<open>
  C1 (amended). For every sentence built from proposition symbols with \<open>~\<close>, n-ary \<open>&\<close> and
  \<open>|\<close> (at least one argument) and the binary \<open>>>\<close>, \<open>==>\<close>, \<open><<\<close>, \<open><==\<close>, \<open><=>\<close>, \<open>^\<close>,
  without boolean constants, and every assignment that binds all its proposition symbols,
  \<open>to_cnf\<close> returns a sentence and \<open>pl_true\<close> gives it the same (definite) truth value as
  the input.
\<close>

theorem to_cnf_preserves_truth_value:
  "sentence s \<and> prop_symbols s \<subseteq> dom m \<longrightarrow>
     (\<exists>c b. to_cnf s = Inr c \<and> pl_true s m = Inr (Some b) \<and> pl_true c m = pl_true s m)"
  using to_cnf_pl_true [of s m] by auto

theorem to_cnf_preserves_truth_value_witness:
  "sentence (Expr ''|'' [Expr ''&'' [Expr ''A'' [], Expr ''B'' []], Expr ''P'' []]) \<and>
   to_cnf (Expr ''|'' [Expr ''&'' [Expr ''A'' [], Expr ''B'' []], Expr ''P'' []]) =
     Inr (Expr ''&'' [Expr ''|'' [Expr ''A'' [], Expr ''P'' []], Expr ''|'' [Expr ''B'' [], Expr ''P'' []]]) \<and>
   pl_true (Expr ''&'' [Expr ''|'' [Expr ''A'' [], Expr ''P'' []], Expr ''|'' [Expr ''B'' [], Expr ''P'' []]])
       [Expr ''A'' [] \<mapsto> True, Expr ''B'' [] \<mapsto> False, Expr ''P'' [] \<mapsto> False] =
     pl_true (Expr ''|'' [Expr ''&'' [Expr ''A'' [], Expr ''B'' []], Expr ''P'' []])
       [Expr ''A'' [] \<mapsto> True, Expr ''B'' [] \<mapsto> False, Expr ''P'' [] \<mapsto> False]"
proof -
  let ?s = "Expr ''|'' [Expr ''&'' [Expr ''A'' [], Expr ''B'' []], Expr ''P'' []]"
  let ?m = "[Expr ''A'' [] \<mapsto> True, Expr ''B'' [] \<mapsto> False, Expr ''P'' [] \<mapsto> False]"
  have s: "sentence ?s" by simp
  have d: "prop_symbols ?s \<subseteq> dom ?m" by simp
  have e: "to_cnf ?s =
     Inr (Expr ''&'' [Expr ''|'' [Expr ''A'' [], Expr ''P'' []], Expr ''|'' [Expr ''B'' [], Expr ''P'' []]])"
    by code_simp
  from to_cnf_preserves_truth_value [of ?s ?m] s d e show ?thesis by auto
qed

lemma collect_id:
  "(\<And>x. x \<in> set xs \<Longrightarrow> \<exists>xop xargs. x = Expr xop xargs \<and> xop \<noteq> op) \<Longrightarrow> collect op xs = Inr xs"
proof (induction xs)
  case Nil
  show ?case by simp
next
  case (Cons a xs)
  from Cons.prems [of a] obtain aop aargs where a: "a = Expr aop aargs" "aop \<noteq> op" by auto
  from Cons.IH Cons.prems have "collect op xs = Inr xs" by auto
  with a show ?case by simp
qed

lemma first_conj_None:
  "(\<And>x. x \<in> set xs \<Longrightarrow> \<exists>xop xargs. x = Expr xop xargs \<and> xop \<noteq> ''&'') \<Longrightarrow> first_conj xs = Inr None"
proof (induction xs)
  case Nil
  show ?case by simp
next
  case (Cons a xs)
  from Cons.prems [of a] obtain aop aargs where a: "a = Expr aop aargs" "aop \<noteq> ''&''" by auto
  from Cons.IH Cons.prems have "first_conj xs = Inr None" by auto
  with a show ?case by simp
qed

lemma associate_id:
  assumes "\<And>x. x \<in> set xs \<Longrightarrow> \<exists>xop xargs. x = Expr xop xargs \<and> xop \<noteq> op" and "2 \<le> length xs"
  shows "associate op xs = Inr (Expr op xs)"
proof -
  from assms(2) obtain a b bs where "xs = a # b # bs"
    by (cases xs; cases "tl xs") auto
  with collect_id [of xs op, OF assms(1)] show ?thesis
    by (simp add: associate_def dissociate_def)
qed

lemma literal_Expr: "literal x \<Longrightarrow> \<exists>xop xargs. x = Expr xop xargs \<and> xop \<noteq> ''|'' \<and> xop \<noteq> ''&''"
  by (cases x) auto

lemma clause_Expr: "clause x \<Longrightarrow> \<exists>xop xargs. x = Expr xop xargs \<and> xop \<noteq> ''&''"
  by (cases x) auto

lemma distribute_literal: "literal x \<Longrightarrow> distribute_and_over_or x = Inr x"
  using literal_Expr [of x] by (auto simp: distribute_and_over_or_other)

lemma distribute_clause: "clause x \<Longrightarrow> distribute_and_over_or x = Inr x"
proof (cases x)
  case (Const b)
  assume "clause x"
  with Const show ?thesis by simp
next
  case (Expr op args)
  assume "clause x"
  with Expr consider "literal x"
    | "op = ''|''" "2 \<le> length args" "list_all literal args" by auto
  then show ?thesis
  proof cases
    case 1
    then show ?thesis by (rule distribute_literal)
  next
    case 2
    have lit: "literal y" if "y \<in> set args" for y
      using 2(3) that by (simp add: list_all_iff)
    have e1: "\<exists>xop xargs. y = Expr xop xargs \<and> xop \<noteq> ''|''" if "y \<in> set args" for y
      using literal_Expr [OF lit [OF that]] by blast
    have e2: "\<exists>xop xargs. y = Expr xop xargs \<and> xop \<noteq> ''&''" if "y \<in> set args" for y
      using literal_Expr [OF lit [OF that]] by blast
    have a: "associate ''|'' args = Inr (Expr ''|'' args)"
      by (rule associate_id [OF e1 2(2)])
    have f: "first_conj args = Inr None"
      by (rule first_conj_None [OF e2])
    from distribute_and_over_or_clause [OF a 2(2) f] show ?thesis
      by (simp add: Expr 2(1))
  qed
qed

lemma distribute_cnf: "cnf x \<Longrightarrow> distribute_and_over_or x = Inr x"
proof (cases x)
  case (Const b)
  assume "cnf x"
  with Const show ?thesis by simp
next
  case (Expr op args)
  assume "cnf x"
  with Expr consider "clause x"
    | "op = ''&''" "2 \<le> length args" "list_all clause args" by auto
  then show ?thesis
  proof cases
    case 1
    then show ?thesis by (rule distribute_clause)
  next
    case 2
    have cl: "clause y" if "y \<in> set args" for y
      using 2(3) that by (simp add: list_all_iff)
    have "list_results (map distribute_and_over_or args) = Inr (map (\<lambda>x. x) args)"
      by (rule list_results_map_Inr) (rule distribute_clause [OF cl])
    moreover have "associate ''&'' args = Inr (Expr ''&'' args)"
      by (rule associate_id [OF clause_Expr [OF cl] 2(2)])
    ultimately show ?thesis
      by (simp add: Expr 2(1) distribute_and_over_or_and)
  qed
qed

lemma eliminate_implications_basic: "basic s \<Longrightarrow> eliminate_implications s = Inr s"
proof (induction s rule: eliminate_implications.induct)
  case (1 b)
  then show ?case by simp
next
  case (2 op args)
  show ?case
  proof (cases "is_prop_symbol op")
    case True
    with "2.prems" show ?thesis by (simp add: is_prop_symbol_is_symbol)
  next
    case False
    note ops = basic_ops [OF "2.prems" False]
    have nsym: "\<not> is_symbol op" using ops by (elim disjE) simp_all
    have args: "args \<noteq> []" "list_all basic args"
      using ops "2.prems" by (elim disjE; simp; fastforce)+
    have cond: "\<not> (args = [] \<or> is_symbol op)" using nsym args by simp
    have "list_results (map eliminate_implications args) = Inr (map (\<lambda>x. x) args)"
      using "2.IH" [OF cond] args(2) by (intro list_results_map_Inr) (auto simp: list_all_iff)
    with cond ops show ?thesis
      by (elim disjE) simp_all
  qed
qed

lemma move_not_inwards_nnf: "nnf s \<Longrightarrow> move_not_inwards s = Inr s"
proof (induction s rule: subexpressions.induct)
  case (1 b)
  then show ?case by simp
next
  case (2 op args)
  show ?case
  proof (cases "is_prop_symbol op")
    case True
    then show ?thesis by (rule move_not_inwards_atom(2))
  next
    case False
    from nnf_ops [OF "2.prems" False]
    consider (c_neg) "op = ''~''" | (c_jn) "op = ''|'' \<or> op = ''&''" by blast
    then show ?thesis
    proof cases
      case c_neg
      with "2.prems" obtain a where a: "args = [a]" "atom a"
        by (auto split: list.splits)
      then obtain aop where "a = Expr aop []" "is_prop_symbol aop" by (cases a) auto
      then show ?thesis by (simp add: c_neg a(1) move_not_inwards_atom(1))
    next
      case c_jn
      with "2.prems" have aa: "args \<noteq> []" "list_all nnf args" by auto
      have "list_results (map move_not_inwards args) = Inr (map (\<lambda>x. x) args)"
        using "2.IH" aa(2) by (intro list_results_map_Inr) (auto simp: list_all_iff)
      with c_jn aa(1) show ?thesis
        by (elim disjE) (simp_all add: move_not_inwards_simps)
    qed
  qed
qed

lemma to_cnf_cnf: "cnf c \<Longrightarrow> to_cnf c = Inr c"
  by (simp add: to_cnf_def eliminate_implications_basic nnf_basic cnf_nnf
        move_not_inwards_nnf distribute_cnf)

text \<open>
  The claim C8 as stated covers every propositional sentence. On the conjunction without
  arguments, which the evaluator accepts, \<open>to_cnf\<close> returns the boolean \<open>True\<close>, and
  \<open>to_cnf\<close> of that boolean faults: the second application has no result to compare.
\<close>

theorem to_cnf_not_idempotent_on_empty_conjunction:
  "to_cnf (Expr ''&'' []) = Inr (Const True) \<and>
   to_cnf (Const True) = Inl AttributeError \<and>
   to_cnf (Const True) \<noteq> to_cnf (Expr ''&'' []) \<and>
   pl_sentence (Expr ''&'' [])"
proof -
  have b: "to_cnf (Expr ''&'' []) = Inr (Const True)" by code_simp
  have c: "to_cnf (Const True) = Inl AttributeError" by code_simp
  show ?thesis by (simp add: b c)
qed

text \<open>
  C8 (amended). For every sentence built from proposition symbols with \<open>~\<close>, \<open>&\<close> and \<open>|\<close> of
  at least one argument and the binary operators, without boolean constants, \<open>to_cnf\<close>
  returns a sentence on which \<open>to_cnf\<close> is the identity: \<open>to_cnf(to_cnf(s))\<close> is
  structurally equal to \<open>to_cnf(s)\<close>.
\<close>

theorem to_cnf_idempotent:
  "sentence s \<longrightarrow> (\<exists>c. to_cnf s = Inr c \<and> to_cnf c = Inr c)"
  using to_cnf_ok [of s] to_cnf_cnf by blast

theorem to_cnf_idempotent_witness:
  "to_cnf (Expr ''|'' [Expr ''&'' [Expr ''A'' [], Expr ''B'' []], Expr ''P'' []]) =
     Inr (Expr ''&'' [Expr ''|'' [Expr ''A'' [], Expr ''P'' []], Expr ''|'' [Expr ''B'' [], Expr ''P'' []]]) \<and>
   to_cnf (Expr ''&'' [Expr ''|'' [Expr ''A'' [], Expr ''P'' []], Expr ''|'' [Expr ''B'' [], Expr ''P'' []]]) =
     Inr (Expr ''&'' [Expr ''|'' [Expr ''A'' [], Expr ''P'' []], Expr ''|'' [Expr ''B'' [], Expr ''P'' []]])"
proof -
  let ?s = "Expr ''|'' [Expr ''&'' [Expr ''A'' [], Expr ''B'' []], Expr ''P'' []]"
  have s: "sentence ?s" by simp
  have e: "to_cnf ?s =
     Inr (Expr ''&'' [Expr ''|'' [Expr ''A'' [], Expr ''P'' []], Expr ''|'' [Expr ''B'' [], Expr ''P'' []]])"
    by code_simp
  from to_cnf_idempotent [of ?s] s e show ?thesis by auto
qed

section \<open>The store of the enumeration knowledge base\<close>

lemma conjuncts_cnf:
  assumes "cnf c"
  shows "\<exists>xs. conjuncts c = Inr xs \<and> list_all clause xs"
proof -
  have "list_all nnf [c]" using cnf_nnf [OF assms] by simp
  from collect_nnf [of "''&''" "[c]", OF _ this] obtain xs where xs: "collect ''&'' [c] = Inr xs"
    by auto
  have "list_all cnf [c]" using assms by simp
  from collect_clauses [OF this xs] xs show ?thesis
    by (auto simp: conjuncts_def dissociate_def)
qed

lemma tell_sentence:
  assumes "sentence s"
  shows "\<exists>c xs. to_cnf s = Inr c \<and> cnf c \<and> conjuncts c = Inr xs \<and> list_all clause xs \<and>
           (\<forall>cs. clauses self = Some cs \<longrightarrow>
                 PropKB_tell self s = Inr (self\<lparr>clauses := Some (cs @ xs)\<rparr>))"
proof -
  from to_cnf_ok [OF assms] obtain c where c: "to_cnf s = Inr c" "cnf c" by blast
  from conjuncts_cnf [OF c(2)] obtain xs where xs: "conjuncts c = Inr xs" "list_all clause xs"
    by blast
  have "PropKB_tell self s = Inr (self\<lparr>clauses := Some (cs @ xs)\<rparr>)" if "clauses self = Some cs" for cs
    using that c(1) xs(1) by (simp add: PropKB_tell_def)
  with c xs show ?thesis by blast
qed

lemma set_fold_remove1: "set (fold remove1 xs cs) \<subseteq> set cs"
proof (induction xs arbitrary: cs)
  case Nil
  show ?case by simp
next
  case (Cons x xs)
  have "set (fold remove1 xs (remove1 x cs)) \<subseteq> set (remove1 x cs)" by (rule Cons.IH)
  also have "\<dots> \<subseteq> set cs" by (rule set_remove1_subset)
  finally show ?case by simp
qed

lemma tell_keeps_clause_store:
  assumes "clause_store self" and "sentence s" and "PropKB_tell self s = Inr self'"
  shows "clause_store self'"
proof -
  from assms(3) obtain cs where cs: "clauses self = Some cs"
    by (auto simp: PropKB_tell_def split: option.splits)
  from tell_sentence [OF assms(2), of self] cs obtain xs where
    xs: "list_all clause xs" "PropKB_tell self s = Inr (self\<lparr>clauses := Some (cs @ xs)\<rparr>)"
    by blast
  with assms(1,3) cs show ?thesis by (auto simp: clause_store_def)
qed

lemma retract_keeps_clause_store:
  assumes "clause_store self" and "PropKB_retract self s = Inr self'"
  shows "clause_store self'"
proof -
  from assms(2) consider "self' = self"
    | cs xs where "clauses self = Some cs" "self' = self\<lparr>clauses := Some (fold remove1 xs cs)\<rparr>"
    by (auto simp: PropKB_retract_def split: sum.splits option.splits if_splits)
  then show ?thesis
  proof cases
    case 1
    with assms(1) show ?thesis by simp
  next
    case 2
    with assms(1) have "list_all clause cs" by (simp add: clause_store_def)
    with set_fold_remove1 [of xs cs] have "list_all clause (fold remove1 xs cs)"
      by (auto simp: list_all_iff)
    with 2(2) show ?thesis by (simp add: clause_store_def)
  qed
qed

text \<open>
  The claim C7 as stated covers every input sentence and every \<open>tell\<close>. On a sentence with a
  boolean constant \<open>to_cnf\<close> faults, so it has no normal form and \<open>tell\<close> appends nothing;
  on the conjunction without arguments \<open>to_cnf\<close> returns the boolean \<open>True\<close>, which is not
  built from \<open>~\<close>, \<open>&\<close>, \<open>|\<close> over literals, and \<open>tell\<close> faults in \<open>conjuncts\<close>.
\<close>

theorem PropKB_tell_boolean_constant_faults:
  "to_cnf (Expr ''&'' [Expr ''P'' [], Const True]) = Inl AttributeError \<and>
   PropKB_tell \<lparr>clauses = Some []\<rparr> (Expr ''&'' [Expr ''P'' [], Const True]) = Inl AttributeError \<and>
   to_cnf (Expr ''&'' []) = Inr (Const True) \<and>
   cnf (Const True) = False \<and>
   PropKB_tell \<lparr>clauses = Some []\<rparr> (Expr ''&'' []) = Inl AttributeError"
proof -
  have a: "to_cnf (Expr ''&'' [Expr ''P'' [], Const True]) = Inl AttributeError" by code_simp
  have b: "to_cnf (Expr ''&'' []) = Inr (Const True)" by code_simp
  show ?thesis
    by (simp add: PropKB_tell_def a b conjuncts_def dissociate_def)
qed

lemma tell_fault:
  "clauses self = Some cs \<Longrightarrow> to_cnf s = Inl e \<Longrightarrow> PropKB_tell self s = Inl e"
  by (simp add: PropKB_tell_def)

text \<open>
  C7 (amended). For every sentence \<open>s\<close> built from proposition symbols with \<open>~\<close>, \<open>&\<close> and
  \<open>|\<close> of at least one argument and the binary operators, without boolean constants,
  \<open>to_cnf(s)\<close> is in conjunctive normal form (only \<open>~\<close>, \<open>&\<close>, \<open>|\<close>, no conjunction inside a
  disjunction), its top-level conjuncts are clauses, and \<open>tell\<close> appends exactly these
  conjuncts to the store. So the invariant that every stored element is a clause (a
  disjunction of literals, or a single literal) holds of the empty store and is kept by
  every \<open>tell\<close> of such a sentence and by every \<open>retract\<close>. When \<open>to_cnf\<close> faults, \<open>tell\<close>
  faults with it and stores nothing.
\<close>

theorem PropKB_store_holds_clauses:
  "(sentence s \<longrightarrow>
      (\<exists>c xs. to_cnf s = Inr c \<and> cnf c \<and> conjuncts c = Inr xs \<and> list_all clause xs \<and>
         (\<forall>cs. clauses self = Some cs \<longrightarrow>
               PropKB_tell self s = Inr (self\<lparr>clauses := Some (cs @ xs)\<rparr>)))) \<and>
   (clause_store self \<and> sentence s \<and> PropKB_tell self s = Inr self' \<longrightarrow> clause_store self') \<and>
   (clause_store self \<and> PropKB_retract self s = Inr self' \<longrightarrow> clause_store self') \<and>
   clause_store \<lparr>clauses = Some []\<rparr> \<and>
   (clauses self = Some stored \<and> to_cnf s = Inl e \<longrightarrow> PropKB_tell self s = Inl e)"
  using tell_sentence [of s self] tell_keeps_clause_store [of self s self']
    retract_keeps_clause_store [of self s self'] tell_fault [of self stored s e]
  by (simp add: clause_store_def)

lemma to_cnf_ABP:
  "to_cnf (Expr ''|'' [Expr ''&'' [Expr ''A'' [], Expr ''B'' []], Expr ''P'' []]) =
     Inr (Expr ''&'' [Expr ''|'' [Expr ''A'' [], Expr ''P'' []], Expr ''|'' [Expr ''B'' [], Expr ''P'' []]])"
  by code_simp

theorem PropKB_store_holds_clauses_witness:
  "PropKB_tell \<lparr>clauses = Some [Expr ''Q'' []]\<rparr>
      (Expr ''|'' [Expr ''&'' [Expr ''A'' [], Expr ''B'' []], Expr ''P'' []]) =
     Inr \<lparr>clauses = Some [Expr ''Q'' [], Expr ''|'' [Expr ''A'' [], Expr ''P'' []],
                          Expr ''|'' [Expr ''B'' [], Expr ''P'' []]]\<rparr> \<and>
   clause_store \<lparr>clauses = Some [Expr ''Q'' [], Expr ''|'' [Expr ''A'' [], Expr ''P'' []],
                          Expr ''|'' [Expr ''B'' [], Expr ''P'' []]]\<rparr> \<and>
   PropKB_retract \<lparr>clauses = Some [Expr ''Q'' [], Expr ''|'' [Expr ''A'' [], Expr ''P'' []],
                          Expr ''|'' [Expr ''B'' [], Expr ''P'' []]]\<rparr> (Expr ''Q'' []) =
     Inr \<lparr>clauses = Some [Expr ''|'' [Expr ''A'' [], Expr ''P'' []],
                          Expr ''|'' [Expr ''B'' [], Expr ''P'' []]]\<rparr> \<and>
   clause_store \<lparr>clauses = Some [Expr ''|'' [Expr ''A'' [], Expr ''P'' []],
                          Expr ''|'' [Expr ''B'' [], Expr ''P'' []]]\<rparr>"
proof -
  let ?s = "Expr ''|'' [Expr ''&'' [Expr ''A'' [], Expr ''B'' []], Expr ''P'' []]"
  let ?st0 = "\<lparr>clauses = Some [Expr ''Q'' []]\<rparr>"
  let ?st1 = "\<lparr>clauses = Some [Expr ''Q'' [], Expr ''|'' [Expr ''A'' [], Expr ''P'' []],
                          Expr ''|'' [Expr ''B'' [], Expr ''P'' []]]\<rparr>"
  let ?st2 = "\<lparr>clauses = Some [Expr ''|'' [Expr ''A'' [], Expr ''P'' []],
                          Expr ''|'' [Expr ''B'' [], Expr ''P'' []]]\<rparr>"
  have s: "sentence ?s" by simp
  have c0: "clause_store ?st0" by (simp add: clause_store_def)
  have t: "PropKB_tell ?st0 ?s = Inr ?st1"
    by (simp add: PropKB_tell_def to_cnf_ABP conjuncts_def dissociate_def)
  have q: "to_cnf (Expr ''Q'' []) = Inr (Expr ''Q'' [])" by code_simp
  have r: "PropKB_retract ?st1 (Expr ''Q'' []) = Inr ?st2"
    by (simp add: PropKB_retract_def q conjuncts_def dissociate_def)
  from PropKB_store_holds_clauses [of ?s ?st0 ?st1] s c0 t have c1: "clause_store ?st1" by blast
  from PropKB_store_holds_clauses [of "Expr ''Q'' []" ?st1 ?st2] c1 r have c2: "clause_store ?st2" by blast
  from t c1 r c2 show ?thesis by blast
qed

section \<open>The store of the oracle-backed knowledge base\<close>

text \<open>
  The claim C5 says that \<open>PropKB_SAT\<close> stores the sentence itself. Its \<open>tell\<close> calls the
  inherited \<open>PropKB.tell\<close>, which stores the conjuncts of the conjunctive normal form:
  telling \<open>P & Q\<close> to the empty store gives the two clauses \<open>P\<close> and \<open>Q\<close>.
\<close>

theorem PropKB_SAT_tell_not_raw:
  "PropKB_SAT_tell \<lparr>clauses = Some []\<rparr> (Expr ''&'' [Expr ''P'' [], Expr ''Q'' []])
     = Inr \<lparr>clauses = Some [Expr ''P'' [], Expr ''Q'' []]\<rparr> \<and>
   PropKB_SAT_tell \<lparr>clauses = Some []\<rparr> (Expr ''&'' [Expr ''P'' [], Expr ''Q'' []])
     \<noteq> Inr \<lparr>clauses = Some ([] @ [Expr ''&'' [Expr ''P'' [], Expr ''Q'' []]])\<rparr>"
proof -
  have "to_cnf (Expr ''&'' [Expr ''P'' [], Expr ''Q'' []]) = Inr (Expr ''&'' [Expr ''P'' [], Expr ''Q'' []])"
    by code_simp
  then show ?thesis
    by (simp add: PropKB_SAT_tell_def PropKB_tell_def conjuncts_def dissociate_def)
qed

text \<open>
  C5 (amended). \<open>PropKB_SAT.tell\<close> of an argument that counts as true is \<open>PropKB.tell\<close>, and
  \<open>PropKB_SAT.retract\<close> is the inherited \<open>PropKB.retract\<close>: for a sentence \<open>s\<close> and an
  initialised store, after \<open>tell(s)\<close> the stored sequence is the previous one followed by the
  top-level conjuncts of \<open>to_cnf(s)\<close>, each a clause. An argument that counts as false leaves
  the store unchanged.
\<close>

theorem PropKB_SAT_tell_stores_conjuncts:
  "(sentence s \<and> clauses self = Some cs \<longrightarrow>
      (\<exists>c xs. to_cnf s = Inr c \<and> conjuncts c = Inr xs \<and> list_all clause xs \<and>
         PropKB_SAT_tell self s = Inr (self\<lparr>clauses := Some (cs @ xs)\<rparr>))) \<and>
   (truthy s \<longrightarrow> PropKB_SAT_tell self s = PropKB_tell self s) \<and>
   (\<not> truthy s \<longrightarrow> PropKB_SAT_tell self s = Inr self) \<and>
   PropKB_SAT_retract self s = PropKB_retract self s"
proof -
  have "truthy s" if "sentence s" using that by (cases s) auto
  with tell_sentence [of s self] show ?thesis
    by (auto simp: PropKB_SAT_tell_def PropKB_SAT_retract_def)
qed

theorem PropKB_SAT_tell_stores_conjuncts_witness:
  "PropKB_SAT_tell \<lparr>clauses = Some [Expr ''Q'' []]\<rparr>
      (Expr ''|'' [Expr ''&'' [Expr ''A'' [], Expr ''B'' []], Expr ''P'' []]) =
     Inr \<lparr>clauses = Some [Expr ''Q'' [], Expr ''|'' [Expr ''A'' [], Expr ''P'' []],
                          Expr ''|'' [Expr ''B'' [], Expr ''P'' []]]\<rparr> \<and>
   PropKB_SAT_tell \<lparr>clauses = Some [Expr ''Q'' []]\<rparr> (Const False) = Inr \<lparr>clauses = Some [Expr ''Q'' []]\<rparr>"
proof -
  let ?s = "Expr ''|'' [Expr ''&'' [Expr ''A'' [], Expr ''B'' []], Expr ''P'' []]"
  let ?st0 = "\<lparr>clauses = Some [Expr ''Q'' []]\<rparr>"
  have s: "sentence ?s" "clauses ?st0 = Some [Expr ''Q'' []]" "truthy ?s" by simp_all
  have cj: "conjuncts (Expr ''&'' [Expr ''|'' [Expr ''A'' [], Expr ''P'' []], Expr ''|'' [Expr ''B'' [], Expr ''P'' []]])
      = Inr [Expr ''|'' [Expr ''A'' [], Expr ''P'' []], Expr ''|'' [Expr ''B'' [], Expr ''P'' []]]"
    by (simp add: conjuncts_def dissociate_def)
  from PropKB_SAT_tell_stores_conjuncts [of ?s ?st0 "[Expr ''Q'' []]"] s to_cnf_ABP cj
  have "PropKB_SAT_tell ?st0 ?s = Inr \<lparr>clauses = Some [Expr ''Q'' [], Expr ''|'' [Expr ''A'' [], Expr ''P'' []],
                          Expr ''|'' [Expr ''B'' [], Expr ''P'' []]]\<rparr>"
    by auto
  moreover from PropKB_SAT_tell_stores_conjuncts [of "Const False" ?st0 "[]"]
  have "PropKB_SAT_tell ?st0 (Const False) = Inr ?st0" by simp
  ultimately show ?thesis by blast
qed

section \<open>Oracle and enumeration answers\<close>

lemma tt_entails_total:
  assumes "pl_sentence kb" and "pl_sentence alpha"
  shows "tt_entails kb alpha =
       Inr (\<forall>m. dom m = prop_symbols (Expr ''&'' [kb, alpha]) \<and> pl_true kb m = Inr (Some True)
              \<longrightarrow> pl_true alpha m = Inr (Some True))"
proof -
  have sl: "distinct (symbol_list (Expr ''&'' [kb, alpha]))"
    "set (symbol_list (Expr ''&'' [kb, alpha])) = prop_symbols (Expr ''&'' [kb, alpha])"
    by (rule distinct_symbol_list, rule set_symbol_list)
  show ?thesis
    unfolding tt_entails_def variables_pl_sentence [OF assms(2)]
    using tt_check_all_total [OF assms sl] by simp
qed

lemma kb_true_iff:
  assumes "list_all pl_sentence cs" and "\<Union> (set (map prop_symbols cs)) \<subseteq> dom m"
  shows "(pl_true (Expr ''&'' cs) m = Inr (Some True)) = (\<forall>c\<in>set cs. pl_true c m = Inr (Some True))"
proof -
  have "pl_true (Expr ''&'' cs) m = Inr (Some (holds m (Expr ''&'' cs)))"
    using assms by (intro pl_true_holds) simp_all
  moreover have "pl_true c m = Inr (Some (holds m c))" if "c \<in> set cs" for c
    using assms that by (intro pl_true_holds) (auto simp: list_all_iff)
  ultimately show ?thesis by (auto simp: list_all_iff)
qed

lemma atom_cases: "atom q \<Longrightarrow> \<exists>qop. q = Expr qop [] \<and> is_prop_symbol qop"
  by (cases q) auto

lemma entails_atom:
  assumes "list_all sentence cs" and "atom q"
  shows "tt_entails (Expr ''&'' cs) q = Inr (\<not> satisfiable_with cs q False)"
    and "tt_entails (Expr ''&'' cs) (Expr ''~'' [q]) = Inr (\<not> satisfiable_with cs q True)"
proof -
  from atom_cases [OF assms(2)] obtain qop where q: "q = Expr qop []" "is_prop_symbol qop" by blast
  have pc: "list_all pl_sentence cs"
    using assms(1) by (auto simp: list_all_iff sentence_pl_sentence)
  have pk: "pl_sentence (Expr ''&'' cs)" using pc by simp
  have pq: "pl_sentence q" "pl_sentence (Expr ''~'' [q])" using q by simp_all
  let ?D = "prop_symbols (Expr ''&'' (q # cs))"
  have D1: "prop_symbols (Expr ''&'' [Expr ''&'' cs, q]) = ?D" using q by auto
  have D2: "prop_symbols (Expr ''&'' [Expr ''&'' cs, Expr ''~'' [q]]) = ?D" using q by auto
  have qD: "q \<in> ?D" using q by simp
  have sub: "\<Union> (set (map prop_symbols cs)) \<subseteq> ?D" by auto
  have kb: "(pl_true (Expr ''&'' cs) m = Inr (Some True)) = (\<forall>c\<in>set cs. pl_true c m = Inr (Some True))"
    if "dom m = ?D" for m
    using kb_true_iff [OF pc, of m] sub that by simp
  have vq: "pl_true q m = Inr (m q)" for m using q by (simp add: pl_true_symbol)
  have vn: "pl_true (Expr ''~'' [q]) m = Inr (Some (m q = Some False))" if "dom m = ?D" for m
  proof -
    from that qD obtain b where "m q = Some b" by auto
    then show ?thesis using vq [of m] by (simp add: pl_true_not)
  qed
  have "(\<forall>m. dom m = ?D \<and> pl_true (Expr ''&'' cs) m = Inr (Some True) \<longrightarrow> pl_true q m = Inr (Some True))
        = (\<not> satisfiable_with cs q False)"
  proof
    assume h: "\<forall>m. dom m = ?D \<and> pl_true (Expr ''&'' cs) m = Inr (Some True) \<longrightarrow> pl_true q m = Inr (Some True)"
    show "\<not> satisfiable_with cs q False"
    proof
      assume "satisfiable_with cs q False"
      then obtain m where m: "dom m = ?D" "m q = Some False" "\<forall>c\<in>set cs. pl_true c m = Inr (Some True)"
        unfolding satisfiable_with_def by blast
      from kb [OF m(1)] m(3) h m(1) have "pl_true q m = Inr (Some True)" by blast
      with m(2) vq [of m] show False by simp
    qed
  next
    assume n: "\<not> satisfiable_with cs q False"
    show "\<forall>m. dom m = ?D \<and> pl_true (Expr ''&'' cs) m = Inr (Some True) \<longrightarrow> pl_true q m = Inr (Some True)"
    proof (intro allI impI, elim conjE)
      fix m assume m: "dom m = ?D" "pl_true (Expr ''&'' cs) m = Inr (Some True)"
      from m(1) qD obtain b where b: "m q = Some b" by auto
      have "b" 
      proof (rule ccontr)
        assume "\<not> b"
        with b m kb [OF m(1)] have "satisfiable_with cs q False"
          unfolding satisfiable_with_def by auto
        with n show False ..
      qed
      with b vq [of m] show "pl_true q m = Inr (Some True)" by simp
    qed
  qed
  with tt_entails_total [OF pk pq(1)] show "tt_entails (Expr ''&'' cs) q = Inr (\<not> satisfiable_with cs q False)"
    unfolding D1 by simp
  have "(\<forall>m. dom m = ?D \<and> pl_true (Expr ''&'' cs) m = Inr (Some True)
            \<longrightarrow> pl_true (Expr ''~'' [q]) m = Inr (Some True))
        = (\<not> satisfiable_with cs q True)"
  proof
    assume h: "\<forall>m. dom m = ?D \<and> pl_true (Expr ''&'' cs) m = Inr (Some True)
            \<longrightarrow> pl_true (Expr ''~'' [q]) m = Inr (Some True)"
    show "\<not> satisfiable_with cs q True"
    proof
      assume "satisfiable_with cs q True"
      then obtain m where m: "dom m = ?D" "m q = Some True" "\<forall>c\<in>set cs. pl_true c m = Inr (Some True)"
        unfolding satisfiable_with_def by blast
      from kb [OF m(1)] m(3) h m(1) have "pl_true (Expr ''~'' [q]) m = Inr (Some True)" by blast
      with m(2) vn [OF m(1)] show False by simp
    qed
  next
    assume n: "\<not> satisfiable_with cs q True"
    show "\<forall>m. dom m = ?D \<and> pl_true (Expr ''&'' cs) m = Inr (Some True)
            \<longrightarrow> pl_true (Expr ''~'' [q]) m = Inr (Some True)"
    proof (intro allI impI, elim conjE)
      fix m assume m: "dom m = ?D" "pl_true (Expr ''&'' cs) m = Inr (Some True)"
      from m(1) qD obtain b where b: "m q = Some b" by auto
      have "\<not> b" 
      proof
        assume "b"
        with b m kb [OF m(1)] have "satisfiable_with cs q True"
          unfolding satisfiable_with_def by auto
        with n show False ..
      qed
      with b vn [OF m(1)] show "pl_true (Expr ''~'' [q]) m = Inr (Some True)" by simp
    qed
  qed
  with tt_entails_total [OF pk pq(2)]
  show "tt_entails (Expr ''&'' cs) (Expr ''~'' [q]) = Inr (\<not> satisfiable_with cs q True)"
    unfolding D2 by simp
qed

lemma oracle_correct_tt_solve: "oracle_correct tt_solve"
  unfolding oracle_correct_def tt_solve_def
  by (auto simp: entails_atom)

lemma ask_by_cases:
  assumes "oracle_correct solve" and "list_all sentence cs" and "atom q"
    and "clauses self = Some cs"
  shows "\<exists>log'. PropKB_SAT_ask solve self q log =
           Inr (if satisfiable_with cs q True = satisfiable_with cs q False then None
                else Some (satisfiable_with cs q True), log')"
    and "enumeration_answer self q =
           Inr (if \<not> satisfiable_with cs q False then Some True
                else if \<not> satisfiable_with cs q True then Some False else None)"
proof -
  from assms(1-3) have s: "solve cs (Some q) b = satisfiable_with cs q b" for b
    unfolding oracle_correct_def by blast
  show "\<exists>log'. PropKB_SAT_ask solve self q log =
           Inr (if satisfiable_with cs q True = satisfiable_with cs q False then None
                else Some (satisfiable_with cs q True), log')"
    by (simp add: PropKB_SAT_ask_def minisat_def assms(4) s)
  show "enumeration_answer self q =
           Inr (if \<not> satisfiable_with cs q False then Some True
                else if \<not> satisfiable_with cs q True then Some False else None)"
    by (simp add: enumeration_answer_def PropKB_ask_def assms(4) entails_atom [OF assms(2,3)])
qed

text \<open>
  The claim C4 fails on a store that is not satisfiable: with \<open>P\<close> and \<open>~P\<close> stored, both
  probes of a correct solver fail and \<open>PropKB_SAT.ask\<close> answers \<open>None\<close> (unknown), while the
  clauses entail \<open>P\<close> and the enumeration knowledge base answers true.
\<close>

theorem PropKB_SAT_ask_unknown_on_inconsistent_store:
  "oracle_correct tt_solve \<and>
   PropKB_SAT_ask tt_solve \<lparr>clauses = Some [Expr ''P'' [], Expr ''~'' [Expr ''P'' []]]\<rparr> (Expr ''P'' []) [] =
     Inr (None,
          [\<lparr>probe_clauses = [Expr ''P'' [], Expr ''~'' [Expr ''P'' []]],
            probe_variable = Some (Expr ''P'' []), probe_value = True\<rparr>,
           \<lparr>probe_clauses = [Expr ''P'' [], Expr ''~'' [Expr ''P'' []]],
            probe_variable = Some (Expr ''P'' []), probe_value = False\<rparr>]) \<and>
   PropKB_ask \<lparr>clauses = Some [Expr ''P'' [], Expr ''~'' [Expr ''P'' []]]\<rparr> (Expr ''P'' []) = Inr True \<and>
   enumeration_answer \<lparr>clauses = Some [Expr ''P'' [], Expr ''~'' [Expr ''P'' []]]\<rparr> (Expr ''P'' [])
     = Inr (Some True)"
proof -
  have "PropKB_SAT_ask tt_solve \<lparr>clauses = Some [Expr ''P'' [], Expr ''~'' [Expr ''P'' []]]\<rparr> (Expr ''P'' []) [] =
     Inr (None,
          [\<lparr>probe_clauses = [Expr ''P'' [], Expr ''~'' [Expr ''P'' []]],
            probe_variable = Some (Expr ''P'' []), probe_value = True\<rparr>,
           \<lparr>probe_clauses = [Expr ''P'' [], Expr ''~'' [Expr ''P'' []]],
            probe_variable = Some (Expr ''P'' []), probe_value = False\<rparr>])"
    by code_simp
  moreover have "PropKB_ask \<lparr>clauses = Some [Expr ''P'' [], Expr ''~'' [Expr ''P'' []]]\<rparr> (Expr ''P'' []) = Inr True"
    by code_simp
  moreover have "enumeration_answer \<lparr>clauses = Some [Expr ''P'' [], Expr ''~'' [Expr ''P'' []]]\<rparr> (Expr ''P'' [])
     = Inr (Some True)"
    by code_simp
  ultimately show ?thesis using oracle_correct_tt_solve by blast
qed

text \<open>
  C4 (amended). With a solver that correctly decides satisfiability under the pin, a store
  of sentences and a proposition symbol as query: when the stored clauses are satisfiable
  together with some value of the query (at least one probe can succeed), the answer of
  \<open>PropKB_SAT.ask\<close> is the three-valued answer obtained from \<open>tt_entails\<close> on the same
  clauses, for each of true, false and unknown. When they are not, \<open>PropKB_SAT.ask\<close> answers
  unknown and the enumeration answers true.
\<close>

theorem PropKB_SAT_ask_agrees_on_satisfiable_store:
  "oracle_correct solve \<and> list_all sentence cs \<and> atom q \<and> clauses self = Some cs \<longrightarrow>
     ((satisfiable_with cs q True \<or> satisfiable_with cs q False) \<longrightarrow>
        (\<exists>answer log'. PropKB_SAT_ask solve self q log = Inr (answer, log') \<and>
                        enumeration_answer self q = Inr answer)) \<and>
     (\<not> (satisfiable_with cs q True \<or> satisfiable_with cs q False) \<longrightarrow>
        (\<exists>log'. PropKB_SAT_ask solve self q log = Inr (None, log')) \<and>
        enumeration_answer self q = Inr (Some True))"
proof (intro impI, elim conjE)
  assume a: "oracle_correct solve" "list_all sentence cs" "atom q" "clauses self = Some cs"
  from ask_by_cases(1) [OF a, of log] obtain log' where
    l: "PropKB_SAT_ask solve self q log =
           Inr (if satisfiable_with cs q True = satisfiable_with cs q False then None
                else Some (satisfiable_with cs q True), log')" by blast
  note e = ask_by_cases(2) [OF a]
  show "((satisfiable_with cs q True \<or> satisfiable_with cs q False) \<longrightarrow>
        (\<exists>answer log'. PropKB_SAT_ask solve self q log = Inr (answer, log') \<and>
                        enumeration_answer self q = Inr answer)) \<and>
     (\<not> (satisfiable_with cs q True \<or> satisfiable_with cs q False) \<longrightarrow>
        (\<exists>log'. PropKB_SAT_ask solve self q log = Inr (None, log')) \<and>
        enumeration_answer self q = Inr (Some True))"
    unfolding l e by auto
qed

lemma ask_tt_solve_P:
  "PropKB_SAT_ask tt_solve \<lparr>clauses = Some [Expr ''P'' []]\<rparr> (Expr ''P'' []) [] =
     Inr (Some True,
          [\<lparr>probe_clauses = [Expr ''P'' []], probe_variable = Some (Expr ''P'' []), probe_value = True\<rparr>,
           \<lparr>probe_clauses = [Expr ''P'' []], probe_variable = Some (Expr ''P'' []), probe_value = False\<rparr>])"
  by code_simp

theorem PropKB_SAT_ask_agrees_on_satisfiable_store_witness:
  "oracle_correct tt_solve \<and>
   satisfiable_with [Expr ''P'' []] (Expr ''P'' []) True \<and>
   PropKB_SAT_ask tt_solve \<lparr>clauses = Some [Expr ''P'' []]\<rparr> (Expr ''P'' []) [] =
     Inr (Some True,
          [\<lparr>probe_clauses = [Expr ''P'' []], probe_variable = Some (Expr ''P'' []), probe_value = True\<rparr>,
           \<lparr>probe_clauses = [Expr ''P'' []], probe_variable = Some (Expr ''P'' []), probe_value = False\<rparr>]) \<and>
   enumeration_answer \<lparr>clauses = Some [Expr ''P'' []]\<rparr> (Expr ''P'' []) = Inr (Some True)"
proof -
  let ?P = "Expr ''P'' []"
  let ?self = "\<lparr>clauses = Some [?P]\<rparr>"
  have sat: "satisfiable_with [?P] ?P True"
    unfolding satisfiable_with_def
    by (rule exI [of _ "[?P \<mapsto> True]"]) (simp add: pl_true_symbol)
  have h: "list_all sentence [?P]" "atom ?P" "clauses ?self = Some [?P]" by simp_all
  from PropKB_SAT_ask_agrees_on_satisfiable_store [of tt_solve "[?P]" ?P ?self "[]"]
    oracle_correct_tt_solve h sat
  obtain answer log' where
    "PropKB_SAT_ask tt_solve ?self ?P [] = Inr (answer, log')" "enumeration_answer ?self ?P = Inr answer"
    by blast
  with ask_tt_solve_P have "enumeration_answer ?self ?P = Inr (Some True)" by simp
  with oracle_correct_tt_solve sat ask_tt_solve_P show ?thesis by blast
qed

end
